(* ===== verification/GoPrelude.thy ===== *)
theory GoPrelude
  imports Main
begin

text \<open>
  What every component shares: Go programs that may panic or block, Go channels, and the
  lemma collections of the development.

  A Go routine is a \<open>prog\<close>: it has returned (\<open>Ret\<close>), it has panicked (\<open>Panic\<close>), or it has
  reached an operation that may block (\<open>Wait\<close>: taking a lock, sending on a channel,
  sleeping).  A \<open>Wait\<close> carries the condition under which the operation can go on, the state
  at the moment the routine stopped there, and the rest of the routine as a function of the
  state it finds when it is resumed.  Between the two states other goroutines may run.
  \<open>run\<close> executes a routine alone; the interleaved semantics (theory \<open>Interleaving\<close>) resumes
  routines of several goroutines over one shared state.  Both use the same definitions of
  the code.
\<close>

named_theorems run_simps "running the primitives and operations of the model alone"

subsection \<open>Programs that may panic or block\<close>

datatype ('p, 'a, dead 's) prog =
    Ret 'a 's
  | Panic 'p 's
  | Wait "'s \<Rightarrow> bool" 's "'s \<Rightarrow> ('p, 'a, 's) prog"

text \<open>Sequencing: the statement after \<open>m\<close> gets its value and the state it left.\<close>

primrec andthen ::
  "('p, 'a, 's) prog \<Rightarrow> ('a \<Rightarrow> 's \<Rightarrow> ('p, 'b, 's) prog) \<Rightarrow> ('p, 'b, 's) prog" where
  "andthen (Ret a s) f = f a s"
| "andthen (Panic p s) f = Panic p s"
| "andthen (Wait g s k) f = Wait g s (\<lambda>t. andthen (k t) f)"

text \<open>
  \<open>defer\<close> of a state update that cannot block (an unlock): it runs when the function
  returns and when it panics.
\<close>

primrec finally_do :: "('p, 'a, 's) prog \<Rightarrow> ('s \<Rightarrow> 's) \<Rightarrow> ('p, 'a, 's) prog" where
  "finally_do (Ret a s) u = Ret a (u s)"
| "finally_do (Panic p s) u = Panic p (u s)"
| "finally_do (Wait g s k) u = Wait g s (\<lambda>t. finally_do (k t) u)"

text \<open>
  The unwinding of a panic: \<open>catch_panic m h\<close> goes on with \<open>h\<close> when \<open>m\<close> panics.  It is how
  deferred functions that may block or panic themselves, and \<open>recover\<close>, are composed.
\<close>

primrec catch_panic ::
  "('p, 'a, 's) prog \<Rightarrow> ('p \<Rightarrow> 's \<Rightarrow> ('p, 'a, 's) prog) \<Rightarrow> ('p, 'a, 's) prog" where
  "catch_panic (Ret a s) h = Ret a s"
| "catch_panic (Panic p s) h = h p s"
| "catch_panic (Wait g s k) h = Wait g s (\<lambda>t. catch_panic (k t) h)"

text \<open>An operation that may block: it goes on with \<open>k\<close> once \<open>g\<close> holds.\<close>

definition wait_for ::
  "('s \<Rightarrow> bool) \<Rightarrow> ('s \<Rightarrow> ('p, 'a, 's) prog) \<Rightarrow> 's \<Rightarrow> ('p, 'a, 's) prog" where
  "wait_for g k s = Wait g s k"

subsection \<open>Running a routine alone\<close>

datatype ('p, 'a, 's) outcome =
    Done 'a 's
  | Panicked 'p 's
  | Stuck "'s \<Rightarrow> bool" 's

text \<open>
  Alone, nothing changes the state while the routine waits: it goes on at once if the
  condition holds and is stuck for ever otherwise.
\<close>

primrec run :: "('p, 'a, 's) prog \<Rightarrow> ('p, 'a, 's) outcome" where
  "run (Ret a s) = Done a s"
| "run (Panic p s) = Panicked p s"
| "run (Wait g s k) = (if g s then run (k s) else Stuck g s)"

definition bind_outcome ::
  "('p, 'a, 's) outcome \<Rightarrow> ('a \<Rightarrow> 's \<Rightarrow> ('p, 'b, 's) outcome) \<Rightarrow> ('p, 'b, 's) outcome" where
  "bind_outcome x f = (case x of Done a s \<Rightarrow> f a s | Panicked p s \<Rightarrow> Panicked p s
     | Stuck g s \<Rightarrow> Stuck g s)"

lemma bind_outcome_simps [simp, run_simps]:
  "bind_outcome (Done a s) f = f a s"
  "bind_outcome (Panicked p s) f = Panicked p s"
  "bind_outcome (Stuck g s) f = Stuck g s"
  by (simp_all add: bind_outcome_def)

lemma run_andthen [run_simps]:
  "run (andthen m f) = bind_outcome (run m) (\<lambda>a s. run (f a s))"
  by (induction m) auto

lemma run_finally_do [run_simps]:
  "run (finally_do m u) = (case run m of Done a s \<Rightarrow> Done a (u s)
     | Panicked p s \<Rightarrow> Panicked p (u s) | Stuck g s \<Rightarrow> Stuck g s)"
  by (induction m) auto

lemma run_catch_panic [run_simps]:
  "run (catch_panic m h) = (case run m of Done a s \<Rightarrow> Done a s
     | Panicked p s \<Rightarrow> run (h p s) | Stuck g s \<Rightarrow> Stuck g s)"
  by (induction m) auto

lemma run_wait_for [run_simps]:
  "run (wait_for g k s) = (if g s then run (k s) else Stuck g s)"
  by (simp add: wait_for_def)

lemma run_if [run_simps]: "run (if b then m else n) = (if b then run m else run n)"
  by simp

declare run.simps [run_simps]

lemma andthen_assoc: "andthen (andthen m f) g = andthen m (\<lambda>a s. andthen (f a s) g)"
  by (induction m) auto

lemma andthen_Ret: "andthen m Ret = m"
  by (induction m) auto

subsection \<open>Rely and guarantee\<close>

text \<open>
  \<open>rg R G Q s m\<close>: started in \<open>s\<close>, every stretch of \<open>m\<close> between two points where it may be
  interrupted relates the state at its start to the state at its end by \<open>G\<close>, and if \<open>m\<close>
  returns then the value and the state satisfy \<open>Q\<close>, provided that what other goroutines do
  while \<open>m\<close> waits is related by \<open>R\<close>.
\<close>

primrec rg ::
  "('s \<Rightarrow> 's \<Rightarrow> bool) \<Rightarrow> ('s \<Rightarrow> 's \<Rightarrow> bool) \<Rightarrow> ('a \<Rightarrow> 's \<Rightarrow> bool) \<Rightarrow> 's \<Rightarrow> ('p, 'a, 's) prog \<Rightarrow> bool" where
  "rg R G Q s0 (Ret a s) = (G s0 s \<and> Q a s)"
| "rg R G Q s0 (Panic p s) = G s0 s"
| "rg R G Q s0 (Wait g s k) = (G s0 s \<and> (\<forall>t. R s t \<longrightarrow> g t \<longrightarrow> rg R G Q t (k t)))"

lemma rg_trans:
  assumes "transp G" and "G s0 s1" and "rg R G Q s1 m"
  shows "rg R G Q s0 m"
  using assms by (cases m) (auto dest: transpD)

lemma rg_weaken:
  assumes "rg R G Q s m" and "\<And>a s. Q a s \<Longrightarrow> Q' a s"
  shows "rg R G Q' s m"
  using assms(1) by (induction m arbitrary: s) (auto simp: assms(2))

lemma rg_andthen:
  assumes "transp G" and "rg R G Q s0 m" and "\<And>a s. Q a s \<Longrightarrow> rg R G Q' s (f a s)"
  shows "rg R G Q' s0 (andthen m f)"
  using assms(2)
proof (induction m arbitrary: s0)
  case (Ret a s)
  then show ?case using assms(1,3) by (auto intro: rg_trans)
qed auto

lemma rg_finally_do:
  assumes "transp G" and "rg R G Q s0 m" and "\<And>s. G s (u s)" and "\<And>a s. Q a s \<Longrightarrow> Q' a (u s)"
  shows "rg R G Q' s0 (finally_do m u)"
  using assms(2)
  by (induction m arbitrary: s0) (auto intro: transpD [OF assms(1) _ assms(3)] assms(4))

lemma rg_catch_panic:
  assumes "transp G" and "rg R G Q s0 m" and "\<And>p s. rg R G Q s (h p s)"
  shows "rg R G Q s0 (catch_panic m h)"
  using assms(2)
proof (induction m arbitrary: s0)
  case (Panic p s)
  then show ?case using assms(1,3) by (auto intro: rg_trans)
qed auto

lemma rg_wait_for:
  "G s s \<Longrightarrow> (\<And>t. R s t \<Longrightarrow> g t \<Longrightarrow> rg R G Q t (k t)) \<Longrightarrow> rg R G Q s (wait_for g k s)"
  by (simp add: wait_for_def)

lemma rg_if:
  "(b \<Longrightarrow> rg R G Q s m) \<Longrightarrow> (\<not> b \<Longrightarrow> rg R G Q s n) \<Longrightarrow> rg R G Q s (if b then m else n)"
  by simp

text \<open>A routine that guarantees \<open>G\<close> and runs alone relates its start and its end by \<open>G\<close>.\<close>

definition outcome_state :: "('p, 'a, 's) outcome \<Rightarrow> 's" where
  "outcome_state x = (case x of Done a s \<Rightarrow> s | Panicked p s \<Rightarrow> s | Stuck g s \<Rightarrow> s)"

lemma outcome_state_simps [simp]:
  "outcome_state (Done a s) = s"
  "outcome_state (Panicked p s) = s"
  "outcome_state (Stuck g s) = s"
  by (simp_all add: outcome_state_def)

lemma rg_run:
  assumes "transp G" and "\<And>s. R s s" and "rg R G Q s0 m"
  shows "G s0 (outcome_state (run m))"
  using assms(3)
proof (induction m arbitrary: s0)
  case (Wait g s k)
  show ?case
  proof (cases "g s")
    case True
    with Wait.prems assms(2) have "G s0 s" and "rg R G Q s (k s)" by auto
    with Wait.IH [of "k s" s] have "G s (outcome_state (run (k s)))" by auto
    with \<open>G s0 s\<close> True show ?thesis by (auto intro: transpD [OF assms(1)])
  next
    case False
    with Wait.prems show ?thesis by simp
  qed
qed auto

subsection \<open>Channels\<close>

text \<open>
  A buffered Go channel: the values sent and not yet received, the capacity given to
  \<open>make\<close>, and whether it was closed.  \<open>chan_taken\<close> is a history: what receivers have taken
  so far, in order.
\<close>

record 'a chan =
  chan_buf :: "'a list"
  chan_cap :: nat
  chan_closed :: bool
  chan_taken :: "'a list"

definition make_chan :: "nat \<Rightarrow> 'a chan" where
  "make_chan n = \<lparr>chan_buf = [], chan_cap = n, chan_closed = False, chan_taken = []\<rparr>"

text \<open>A send goes on when there is room, and (to panic) when the channel is closed.\<close>

definition can_send :: "'a chan \<Rightarrow> bool" where
  "can_send ch \<longleftrightarrow> chan_closed ch \<or> length (chan_buf ch) < chan_cap ch"

definition can_recv :: "'a chan \<Rightarrow> bool" where
  "can_recv ch \<longleftrightarrow> chan_closed ch \<or> chan_buf ch \<noteq> []"

definition chan_push :: "'a \<Rightarrow> 'a chan \<Rightarrow> 'a chan" where
  "chan_push v ch = ch\<lparr>chan_buf := chan_buf ch @ [v]\<rparr>"

text \<open>A receive on a closed and drained channel yields the zero value.\<close>

definition chan_recv :: "'a \<Rightarrow> 'a chan \<Rightarrow> 'a \<times> 'a chan" where
  "chan_recv zero ch = (case chan_buf ch of
       [] \<Rightarrow> (zero, ch)
     | v # vs \<Rightarrow> (v, ch\<lparr>chan_buf := vs, chan_taken := chan_taken ch @ [v]\<rparr>))"

definition chan_close :: "'a chan \<Rightarrow> 'a chan" where
  "chan_close ch = ch\<lparr>chan_closed := True\<rparr>"

text \<open>Everything ever sent, in order: what was taken, then what waits in the buffer.\<close>

definition chan_history :: "'a chan \<Rightarrow> 'a list" where
  "chan_history ch = chan_taken ch @ chan_buf ch"

lemma chan_push_simps [simp]:
  "chan_buf (chan_push v ch) = chan_buf ch @ [v]"
  "chan_cap (chan_push v ch) = chan_cap ch"
  "chan_closed (chan_push v ch) = chan_closed ch"
  "chan_taken (chan_push v ch) = chan_taken ch"
  "chan_history (chan_push v ch) = chan_history ch @ [v]"
  by (simp_all add: chan_push_def chan_history_def)

lemma chan_close_simps [simp]:
  "chan_buf (chan_close ch) = chan_buf ch"
  "chan_cap (chan_close ch) = chan_cap ch"
  "chan_closed (chan_close ch)"
  "chan_taken (chan_close ch) = chan_taken ch"
  "chan_history (chan_close ch) = chan_history ch"
  by (simp_all add: chan_close_def chan_history_def)

lemma make_chan_simps [simp]:
  "chan_buf (make_chan n) = []"
  "chan_cap (make_chan n) = n"
  "\<not> chan_closed (make_chan n)"
  "chan_taken (make_chan n) = []"
  "chan_history (make_chan n) = []"
  by (simp_all add: make_chan_def chan_history_def)

lemma chan_recv_Cons:
  "chan_buf ch = v # vs \<Longrightarrow>
   chan_recv z ch = (v, ch\<lparr>chan_buf := vs, chan_taken := chan_taken ch @ [v]\<rparr>)"
  by (simp add: chan_recv_def)

lemma chan_recv_Nil: "chan_buf ch = [] \<Longrightarrow> chan_recv z ch = (z, ch)"
  by (simp add: chan_recv_def)

lemma chan_recv_snd [simp]:
  "chan_history (snd (chan_recv z ch)) = chan_history ch"
  "chan_cap (snd (chan_recv z ch)) = chan_cap ch"
  "chan_closed (snd (chan_recv z ch)) = chan_closed ch"
  by (cases "chan_buf ch"; simp add: chan_recv_def chan_history_def)+

text \<open>The channel's own invariant: the buffer never exceeds the capacity.\<close>

definition chan_ok :: "'a chan \<Rightarrow> bool" where
  "chan_ok ch \<longleftrightarrow> length (chan_buf ch) \<le> chan_cap ch"

lemma chan_ok_make [simp]: "chan_ok (make_chan n)"
  by (simp add: chan_ok_def)

lemma chan_ok_push: "chan_ok ch \<Longrightarrow> can_send ch \<Longrightarrow> \<not> chan_closed ch \<Longrightarrow> chan_ok (chan_push v ch)"
  by (simp add: chan_ok_def can_send_def)

lemma chan_ok_recv: "chan_ok ch \<Longrightarrow> chan_ok (snd (chan_recv z ch))"
  by (cases "chan_buf ch") (auto simp: chan_ok_def chan_recv_def)

lemma chan_ok_close: "chan_ok ch \<Longrightarrow> chan_ok (chan_close ch)"
  by (simp add: chan_ok_def)

subsection \<open>Maps kept in a \<open>sync.Map\<close>\<close>

text \<open>
  The operations of \<open>sync.Map\<close> the code uses: \<open>Load\<close>, \<open>Store\<close> and \<open>Delete\<close>, each atomic.
\<close>

definition map_load :: "('k \<rightharpoonup> 'v) \<Rightarrow> 'k \<Rightarrow> 'v option" where
  "map_load m k = m k"

definition map_store :: "('k \<rightharpoonup> 'v) \<Rightarrow> 'k \<Rightarrow> 'v \<Rightarrow> ('k \<rightharpoonup> 'v)" where
  "map_store m k v = m(k \<mapsto> v)"

definition map_delete :: "('k \<rightharpoonup> 'v) \<Rightarrow> 'k \<Rightarrow> ('k \<rightharpoonup> 'v)" where
  "map_delete m k = m(k := None)"

text \<open>
  The contract of a table keyed by a component of its values: the connection's subscriptions
  and the readers of the Redis handler are such tables.
\<close>

locale keyed_table =
  fixes key :: "'v \<Rightarrow> 'k"
    and load :: "'s \<Rightarrow> 'k \<Rightarrow> 'v option"
    and store :: "'v \<Rightarrow> 's \<Rightarrow> 's"
  assumes load_store: "load (store v s) k = (if k = key v then Some v else load s k)"
begin

lemma load_stored: "load (store v s) (key v) = Some v"
  by (simp add: load_store)

lemma stores_commute:
  "key v \<noteq> key w \<Longrightarrow> load (store v (store w s)) k = load (store w (store v s)) k"
  by (auto simp: load_store)

text \<open>Of several values with one key the last stored is found.\<close>

lemma load_store_all:
  "load (fold store vs s) k =
    (case find (\<lambda>v. key v = k) (rev vs) of Some v \<Rightarrow> Some v | None \<Rightarrow> load s k)"
proof (induction vs rule: rev_induct)
  case (snoc v vs)
  then show ?case by (auto simp: load_store)
qed simp

end

locale keyed_table_delete = keyed_table key load store
  for key :: "'v \<Rightarrow> 'k" and load :: "'s \<Rightarrow> 'k \<Rightarrow> 'v option" and store :: "'v \<Rightarrow> 's \<Rightarrow> 's" +
  fixes delete :: "'k \<Rightarrow> 's \<Rightarrow> 's"
  assumes load_delete: "load (delete k s) k' = (if k' = k then None else load s k')"
begin

lemma delete_stored: "load s (key v) = None \<Longrightarrow> load (delete (key v) (store v s)) k = load s k"
  by (auto simp: load_delete load_store)

end

end
