(* ===== verification/JsonValue.thy ===== *)
theory JsonValue
  imports GoPrelude
begin

text \<open>
  JSON values and what the code uses of \<open>encoding/json\<close>.

  A \<open>json.RawMessage\<close> that was read from a connection is the text of a well-formed JSON
  value, so it is modelled by that value (\<open>None\<close> for the nil slice of an absent field).  A
  number is kept as its text.  Decoding into a struct follows the library: keys are matched
  to fields ignoring case (with the two non-ASCII letters that fold to \<open>k\<close> and \<open>s\<close>), a null
  leaves the field as it is, a later duplicate of a key wins, a value of the wrong kind is an
  error that is reported at the end.  Strings are byte strings; a value that was read spells
  valid UTF-8, since the library replaces what is not (\<open>json_text\<close>).
\<close>

datatype json =
    JNull
  | JBool bool
  | JNum string
  | JStr string
  | JArr "json list"
  | JObj "(string \<times> json) list"

subsection \<open>Texts\<close>

text \<open>
  The number of bytes of the UTF-8 sequence a byte string begins with, as \<open>utf8.DecodeRuneInString\<close>
  finds it: 0 if there is none (a stray, overlong, surrogate or cut sequence).
\<close>

definition byte_in :: "nat \<Rightarrow> nat \<Rightarrow> nat list \<Rightarrow> nat \<Rightarrow> bool" where
  "byte_in lo hi bs i \<longleftrightarrow> i < length bs \<and> lo \<le> bs ! i \<and> bs ! i \<le> hi"

definition two_bytes :: "nat list \<Rightarrow> bool" where
  "two_bytes bs \<longleftrightarrow> byte_in 0xC2 0xDF bs 0 \<and> byte_in 0x80 0xBF bs 1"

definition three_bytes :: "nat list \<Rightarrow> bool" where
  "three_bytes bs \<longleftrightarrow> (byte_in 0xE0 0xE0 bs 0 \<and> byte_in 0xA0 0xBF bs 1 \<or>
     byte_in 0xE1 0xEC bs 0 \<and> byte_in 0x80 0xBF bs 1 \<or> byte_in 0xED 0xED bs 0 \<and> byte_in 0x80 0x9F bs 1 \<or>
     byte_in 0xEE 0xEF bs 0 \<and> byte_in 0x80 0xBF bs 1) \<and> byte_in 0x80 0xBF bs 2"

definition four_bytes :: "nat list \<Rightarrow> bool" where
  "four_bytes bs \<longleftrightarrow> (byte_in 0xF0 0xF0 bs 0 \<and> byte_in 0x90 0xBF bs 1 \<or>
     byte_in 0xF1 0xF3 bs 0 \<and> byte_in 0x80 0xBF bs 1 \<or> byte_in 0xF4 0xF4 bs 0 \<and> byte_in 0x80 0x8F bs 1) \<and>
     byte_in 0x80 0xBF bs 2 \<and> byte_in 0x80 0xBF bs 3"

definition utf8_size :: "nat list \<Rightarrow> nat" where
  "utf8_size bs = (if byte_in 0 0x7F bs 0 then 1 else if two_bytes bs then 2
     else if three_bytes bs then 3 else if four_bytes bs then 4 else 0)"

definition first_rune :: "string \<Rightarrow> nat" where
  "first_rune s = utf8_size (map of_char s)"

text \<open>
  The text that the library writes for a string, as a reader gets it back: each byte that is not
  part of a sequence becomes U+FFFD.  Escapes are undone by reading.
\<close>

fun json_text :: "string \<Rightarrow> string" where
  "json_text [] = []"
| "json_text (c # cs) = (let n = first_rune (c # cs) in
     if n = 0 then [CHR 0xEF, CHR 0xBF, CHR 0xBD] @ json_text cs
     else take n (c # cs) @ json_text (drop (n - 1) cs))"

fun valid_utf8 :: "string \<Rightarrow> bool" where
  "valid_utf8 [] = True"
| "valid_utf8 (c # cs) = (let n = first_rune (c # cs) in n > 0 \<and> valid_utf8 (drop (n - 1) cs))"

declare json_text.simps(2) [simp del] valid_utf8.simps(2) [simp del]

lemma json_text_valid [simp]: "valid_utf8 s \<Longrightarrow> json_text s = s"
proof (induction s rule: valid_utf8.induct)
  case (2 c cs)
  then have n: "0 < first_rune (c # cs)" "json_text (drop (first_rune (c # cs) - 1) cs) = drop (first_rune (c # cs) - 1) cs"
    by (simp_all add: valid_utf8.simps(2) Let_def)
  then have "take (first_rune (c # cs)) (c # cs) @ drop (first_rune (c # cs) - 1) cs = c # cs"
    by (cases "first_rune (c # cs)") simp_all
  with n show ?case by (simp add: json_text.simps(2) Let_def)
qed simp

lemma byte_in_length: "byte_in lo hi bs i \<Longrightarrow> i < length bs"
  by (simp add: byte_in_def)

lemma sequence_lengths:
  "byte_in lo hi bs 0 \<Longrightarrow> 1 \<le> length bs" "two_bytes bs \<Longrightarrow> 2 \<le> length bs"
  "three_bytes bs \<Longrightarrow> 3 \<le> length bs" "four_bytes bs \<Longrightarrow> 4 \<le> length bs"
  by (drule byte_in_length, simp add: Suc_le_eq) (auto simp: two_bytes_def three_bytes_def four_bytes_def byte_in_def)

lemma utf8_size_bound: "utf8_size bs \<le> length bs"
  by (simp add: utf8_size_def sequence_lengths sequence_lengths(1) [where lo = 0 and hi = "0x7F", simplified])

lemma byte_in_prefix: "i < n \<Longrightarrow> n \<le> length bs \<Longrightarrow> byte_in lo hi (take n bs @ cs) i = byte_in lo hi bs i"
  by (simp add: byte_in_def nth_append)

text \<open>Whether a sequence begins a string is seen from its bytes alone.\<close>

lemma sequence_prefix:
  assumes "n \<le> length bs"
  shows "1 \<le> n \<Longrightarrow> byte_in lo hi (take n bs @ cs) 0 = byte_in lo hi bs 0"
    and "2 \<le> n \<Longrightarrow> two_bytes (take n bs @ cs) = two_bytes bs"
    and "3 \<le> n \<Longrightarrow> three_bytes (take n bs @ cs) = three_bytes bs"
    and "4 \<le> n \<Longrightarrow> four_bytes (take n bs @ cs) = four_bytes bs"
  using byte_in_prefix [OF _ assms, of _ _ _ cs]
  by (simp_all add: two_bytes_def three_bytes_def four_bytes_def)

lemma utf8_size_prefix:
  assumes "utf8_size bs = n" and "n > 0"
  shows "utf8_size (take n bs @ cs) = n"
proof -
  have "n \<le> length bs" using utf8_size_bound assms(1) by blast
  from sequence_prefix [OF this, where cs = cs] assms show ?thesis
    by (auto simp: utf8_size_def split: if_splits)
qed

lemma first_rune_prefix:
  assumes "first_rune s = n" and "n > 0"
  shows "first_rune (take n s @ t) = n"
  using utf8_size_prefix [of "map of_char s" n "map of_char t"] assms
  by (simp add: first_rune_def take_map)

lemma valid_utf8_append:
  assumes "first_rune s = n" and "n > 0" and "valid_utf8 t"
  shows "valid_utf8 (take n s @ t)"
proof -
  have "n \<le> length s" using utf8_size_bound [of "map of_char s"] assms(1) by (simp add: first_rune_def)
  with assms(2) obtain c cs where c: "take n s @ t = c # cs" "drop (n - 1) cs = t"
    by (cases s; cases n) auto
  then show ?thesis
    using first_rune_prefix [OF assms(1,2), of t] assms(2,3) by (simp add: valid_utf8.simps(2) Let_def)
qed

lemma valid_json_text [simp]: "valid_utf8 (json_text s)"
proof (induction s rule: json_text.induct)
  case (2 c cs)
  have r: "first_rune [CHR 0xEF, CHR 0xBF, CHR 0xBD] = 3" by code_simp
  show ?case
  proof (cases "first_rune (c # cs) = 0")
    case True
    with 2(1) [OF refl True] show ?thesis
      using valid_utf8_append [OF r, of "json_text cs"] by (simp add: json_text.simps(2))
  next
    case False
    with 2(2) [OF refl False] show ?thesis
      using valid_utf8_append [OF refl, of "c # cs"] by (simp add: json_text.simps(2) Let_def)
  qed
qed simp

lemma json_text_empty [simp]: "json_text s = [] \<longleftrightarrow> s = []"
  by (cases s) (auto simp: json_text.simps(2) Let_def)

lemma valid_ascii [simp]: "list_all (\<lambda>c. of_char c < (128::nat)) s \<Longrightarrow> valid_utf8 s"
proof (induction s)
  case (Cons c cs)
  then have "first_rune (c # cs) = 1" by (simp add: first_rune_def utf8_size_def byte_in_def)
  with Cons show ?case by (simp add: valid_utf8.simps(2))
qed simp

subsection \<open>Keys\<close>

definition ascii_lower :: "char \<Rightarrow> char" where
  "ascii_lower c = (if 65 \<le> (of_char c :: nat) \<and> (of_char c :: nat) \<le> 90
     then char_of ((of_char c :: nat) + 32) else c)"

text \<open>The UTF-8 bytes of U+017F fold to \<open>s\<close>, those of U+212A to \<open>k\<close>.\<close>

fun fold_key :: "string \<Rightarrow> string" where
  "fold_key [] = []"
| "fold_key (c # cs) =
    (if c = CHR 0xC5 \<and> take 1 cs = [CHR 0xBF] then CHR ''s'' # fold_key (drop 1 cs)
     else if c = CHR 0xE2 \<and> take 2 cs = [CHR 0x84, CHR 0xAA] then CHR ''k'' # fold_key (drop 2 cs)
     else ascii_lower c # fold_key cs)"

definition key_matches :: "string \<Rightarrow> string \<Rightarrow> bool" where
  "key_matches field key \<longleftrightarrow> fold_key key = fold_key field"

lemma key_matches_refl [simp]: "key_matches f f"
  by (simp add: key_matches_def)

text \<open>The kind a value is called in a decoding error.\<close>

fun json_kind :: "json \<Rightarrow> string" where
  "json_kind JNull = ''null''"
| "json_kind (JBool b) = ''bool''"
| "json_kind (JNum n) = ''number''"
| "json_kind (JStr s) = ''string''"
| "json_kind (JArr vs) = ''array''"
| "json_kind (JObj kvs) = ''object''"

text \<open>Decoding one field, starting from its present value; \<open>Inl\<close> names the offending kind.\<close>

fun decode_string :: "json \<Rightarrow> string \<Rightarrow> string + string" where
  "decode_string (JStr s) old = Inr s"
| "decode_string JNull old = Inr old"
| "decode_string v old = Inl (json_kind v)"

type_synonym go_map = "(string \<times> json) list"

definition map_set :: "string \<Rightarrow> json \<Rightarrow> go_map \<Rightarrow> go_map" where
  "map_set k v m = filter (\<lambda>kv. fst kv \<noteq> k) m @ [(k, v)]"

text \<open>A \<open>map[string]interface{}\<close>: null is the nil map; an object is merged into the old map.\<close>

fun decode_map :: "json \<Rightarrow> go_map option \<Rightarrow> string + go_map option" where
  "decode_map (JObj kvs) old =
     Inr (Some (fold (\<lambda>kv. map_set (fst kv) (snd kv)) kvs (case old of None \<Rightarrow> [] | Some m \<Rightarrow> m)))"
| "decode_map JNull old = Inr None"
| "decode_map v old = Inl (json_kind v)"

text \<open>
  The fields of an object, in the order of the text.  \<open>step k v r\<close> stores the value \<open>v\<close> of
  key \<open>k\<close> in \<open>r\<close>; decoding goes on after an error, of which the first is reported.
\<close>

fun decode_fields ::
  "(string \<Rightarrow> json \<Rightarrow> 'r \<Rightarrow> string + 'r) \<Rightarrow> (string \<times> json) list \<Rightarrow> string option \<Rightarrow> 'r \<Rightarrow>
    string option \<times> 'r" where
  "decode_fields step [] err r = (err, r)"
| "decode_fields step ((k, v) # kvs) err r =
    (case step k v r of
       Inl e \<Rightarrow> decode_fields step kvs (case err of None \<Rightarrow> Some e | Some e0 \<Rightarrow> Some e0) r
     | Inr r' \<Rightarrow> decode_fields step kvs err r')"

definition decode_struct ::
  "(string \<Rightarrow> json \<Rightarrow> 'r \<Rightarrow> string + 'r) \<Rightarrow> json \<Rightarrow> 'r \<Rightarrow> string + 'r" where
  "decode_struct step v r = (case v of
       JNull \<Rightarrow> Inr r
     | JObj kvs \<Rightarrow> (case decode_fields step kvs None r of
           (None, r') \<Rightarrow> Inr r'
         | (Some e, r') \<Rightarrow> Inl e)
     | _ \<Rightarrow> Inl (json_kind v))"

lemma decode_fields_error_kept:
  "fst (decode_fields step kvs (Some e) r) = Some e"
proof (induction kvs arbitrary: r)
  case (Cons kv kvs)
  then show ?case by (cases kv) (auto split: sum.splits)
qed simp

lemma decode_struct_null [simp]: "decode_struct step JNull r = Inr r"
  by (simp add: decode_struct_def)

lemma decode_struct_object:
  "decode_struct step (JObj kvs) r = (case decode_fields step kvs None r of
      (None, r') \<Rightarrow> Inr r' | (Some e, r') \<Rightarrow> Inl e)"
  by (simp add: decode_struct_def)

lemma decode_struct_fails_on_scalars [simp]:
  "decode_struct step (JBool b) r = Inl ''bool''"
  "decode_struct step (JNum n) r = Inl ''number''"
  "decode_struct step (JStr s) r = Inl ''string''"
  "decode_struct step (JArr vs) r = Inl ''array''"
  by (simp_all add: decode_struct_def)

lemma map_set_lookup: "map_of (map_set k v m) = (map_of m)(k \<mapsto> v)"
proof
  fix x
  have "map_of (filter (\<lambda>kv. fst kv \<noteq> k) m) x = (if x = k then None else map_of m x)"
    by (induction m) auto
  then show "map_of (map_set k v m) x = ((map_of m)(k \<mapsto> v)) x"
    by (auto simp: map_set_def map_add_def split: option.splits)
qed

text \<open>
  Whether \<open>json.Marshal\<close> accepts a Go value and the value it writes: \<open>None\<close> is a value it
  rejects (a channel, a function, a cyclic structure).
\<close>

type_synonym go_value = "json option"

end
