(* ===== verification/GoErrors.thy ===== *)
theory GoErrors
  imports JsonValue
begin

text \<open>
  The error values of the package (\<open>errors.go\<close>, \<open>subscription.go\<close>), the flags of
  \<open>HandlerError\<close>, and the values the program panics with.
\<close>

subsection \<open>\<open>HandlerError\<close>\<close>

record HandlerError =
  defaultPrevented :: bool
  propagationStopped :: bool

definition PreventDefault :: "HandlerError \<Rightarrow> HandlerError" where
  "PreventDefault err = err\<lparr>defaultPrevented := True\<rparr>"

definition StopPropagation :: "HandlerError \<Rightarrow> HandlerError" where
  "StopPropagation err = err\<lparr>propagationStopped := True\<rparr>"

definition new_HandlerError :: HandlerError where
  "new_HandlerError = \<lparr>defaultPrevented = False, propagationStopped = False\<rparr>"

subsection \<open>Error values\<close>

text \<open>
  A non-nil value of the interface \<open>error\<close>, by its dynamic type: a value of \<open>errors.New\<close> or
  \<open>fmt.Errorf\<close>; a pointer to a \<open>HandlerError\<close>, which may be nil; an error of
  \<open>encoding/json\<close>; a \<open>gqlerrors.FormattedError\<close>; the three kinds of network error the read
  loop tells apart; any other type.  The string is the text \<open>Error()\<close> returns.
\<close>

datatype goerr =
    ErrNew string
  | HandlerErr "HandlerError option"
  | JsonErr string
  | FormattedErr string
  | WsCloseErr string
  | NetOpErr string
  | NetErr string
  | OtherErr string

definition HandlerError_Error :: "HandlerError option \<Rightarrow> string" where
  "HandlerError_Error err = ''''"

fun err_text :: "goerr \<Rightarrow> string" where
  "err_text (ErrNew s) = s"
| "err_text (HandlerErr h) = HandlerError_Error h"
| "err_text (JsonErr s) = s"
| "err_text (FormattedErr s) = s"
| "err_text (WsCloseErr s) = s"
| "err_text (NetOpErr s) = s"
| "err_text (NetErr s) = s"
| "err_text (OtherErr s) = s"

definition ErrConnectionClosed :: goerr where
  "ErrConnectionClosed = ErrNew ''connection already closed''"

definition ErrUpgraderRequired :: goerr where
  "ErrUpgraderRequired = ErrNew ''upgrader required''"

definition ErrSchemaRequired :: goerr where
  "ErrSchemaRequired = ErrNew ''schema required''"

definition ErrClientDoesNotImplementGraphqlWS :: goerr where
  "ErrClientDoesNotImplementGraphqlWS =
     ErrNew ''client does not implement the `graphql-ws` subprotocol''"

definition ErrSubscriptionNotFound :: goerr where
  "ErrSubscriptionNotFound = ErrNew ''subscription not found''"

definition ErrReinitializationForbidden :: goerr where
  "ErrReinitializationForbidden = ErrNew ''reinitalization forbidden''"

definition ErrConnectionNotFullyEstablished :: goerr where
  "ErrConnectionNotFullyEstablished = ErrNew ''connection not established''"

definition ErrInvalidTopic :: goerr where
  "ErrInvalidTopic = ErrNew ''invalid topic''"

definition ErrInvalidSubscriber :: goerr where
  "ErrInvalidSubscriber = ErrNew ''invalid subscriber''"

definition ErrSubscriptionIDEmpty :: goerr where
  "ErrSubscriptionIDEmpty = ErrNew ''subscription ID is empty''"

definition ErrSubscriptionHasNoConnection :: goerr where
  "ErrSubscriptionHasNoConnection = ErrNew ''subscription is not associated with a connection''"

definition ErrSubscriptionHasNoQuery :: goerr where
  "ErrSubscriptionHasNoQuery = ErrNew ''subscription query is empty''"

lemmas package_errors =
  ErrConnectionClosed_def ErrUpgraderRequired_def ErrSchemaRequired_def
  ErrClientDoesNotImplementGraphqlWS_def ErrSubscriptionNotFound_def
  ErrReinitializationForbidden_def ErrConnectionNotFullyEstablished_def
  ErrInvalidTopic_def ErrInvalidSubscriber_def ErrSubscriptionIDEmpty_def
  ErrSubscriptionHasNoConnection_def ErrSubscriptionHasNoQuery_def

lemma subscription_errors_differ [simp]:
  "ErrSubscriptionIDEmpty \<noteq> ErrSubscriptionHasNoConnection"
  "ErrSubscriptionIDEmpty \<noteq> ErrSubscriptionHasNoQuery"
  "ErrSubscriptionHasNoConnection \<noteq> ErrSubscriptionHasNoQuery"
  by (simp_all add: ErrSubscriptionIDEmpty_def ErrSubscriptionHasNoConnection_def
      ErrSubscriptionHasNoQuery_def)

text \<open>\<open>ErrorsFromGraphQLErrors\<close>: the nil slice for no error, else the same errors in order.\<close>

definition ErrorsFromGraphQLErrors :: "string list \<Rightarrow> goerr list option" where
  "ErrorsFromGraphQLErrors errors =
     (if length errors = 0 then None else Some (map FormattedErr errors))"

subsection \<open>Panics\<close>

text \<open>
  What the program can panic with: an error value (\<open>panic(err)\<close>), the runtime errors of a
  nil dereference, a send on or a close of a closed channel, a comparison of values that
  cannot be compared, a ticker with a period that is not positive, and a value a handler
  panics with.
\<close>

datatype panic =
    PErr goerr
  | PNilDeref
  | PSendClosed
  | PCloseClosed
  | PUncomparable
  | PTicker
  | PTypeAssertion
  | PHandler string

text \<open>The outcome of a call into a handler: it returns or panics.\<close>

datatype 'a call = Returns 'a | Raises panic

text \<open>A value of \<open>interface{}\<close> that code asserts to be a string, as in \<open>p.Args[''user''].(string)\<close>.\<close>

datatype argument = ArgString string | ArgOther

fun string_arg :: "argument option \<Rightarrow> string call" where
  "string_arg (Some (ArgString s)) = Returns s"
| "string_arg other = Raises PTypeAssertion"

end
