(* ===== verification/Structs.thy ===== *)
theory Structs
  imports GoErrors
begin

text \<open>
  The messages of the protocol (\<open>structs.go\<close>): the type names, the message structs, and how
  they are read from and written to JSON by their field tags.
\<close>

type_synonym GQLType = string

definition gqlTypeConnectionInit :: GQLType where
  "gqlTypeConnectionInit = ''connection_init''"

definition gqlTypeConnectionAck :: GQLType where
  "gqlTypeConnectionAck = ''connection_ack''"

definition gqlTypeConnectionKeepAlive :: GQLType where
  "gqlTypeConnectionKeepAlive = ''ka''"

definition gqlTypeConnectionError :: GQLType where
  "gqlTypeConnectionError = ''connection_error''"

definition gqlTypeConnectionTerminate :: GQLType where
  "gqlTypeConnectionTerminate = ''connection_terminate''"

definition gqlTypeStart :: GQLType where
  "gqlTypeStart = ''start''"

definition gqlTypeData :: GQLType where
  "gqlTypeData = ''data''"

definition gqlTypeError :: GQLType where
  "gqlTypeError = ''error''"

definition gqlTypeComplete :: GQLType where
  "gqlTypeComplete = ''complete''"

definition gqlTypeStop :: GQLType where
  "gqlTypeStop = ''stop''"

lemmas gql_type_defs =
  gqlTypeConnectionInit_def gqlTypeConnectionAck_def gqlTypeConnectionKeepAlive_def
  gqlTypeConnectionError_def gqlTypeConnectionTerminate_def gqlTypeStart_def gqlTypeData_def
  gqlTypeError_def gqlTypeComplete_def gqlTypeStop_def

record OperationMessage =
  msg_ID :: string
  msg_Type :: GQLType
  msg_Payload :: "json option"

definition zero_OperationMessage :: OperationMessage where
  "zero_OperationMessage = \<lparr>msg_ID = '''', msg_Type = '''', msg_Payload = None\<rparr>"

definition gqlConnectionAck_message :: OperationMessage where
  "gqlConnectionAck_message = zero_OperationMessage\<lparr>msg_Type := gqlTypeConnectionAck\<rparr>"

record GQLConnectionInit =
  init_Payload :: "json option"

record GQLObject =
  obj_Query :: string
  obj_Variables :: "go_map option"
  obj_OperationName :: string

definition zero_GQLObject :: GQLObject where
  "zero_GQLObject = \<lparr>obj_Query = '''', obj_Variables = None, obj_OperationName = ''''\<rparr>"

record GQLStart =
  start_ID :: string
  start_Payload :: GQLObject

record GQLStop =
  stop_ID :: string

definition zero_GQLStop :: GQLStop where
  "zero_GQLStop = \<lparr>stop_ID = ''''\<rparr>"

datatype GQLConnectionTerminate = GQLConnectionTerminate

record GQLDataObject =
  data_Data :: go_value
  data_Errors :: "goerr list option"

subsection \<open>Reading messages\<close>

text \<open>
  The keys \<open>id\<close>, \<open>type\<close> and \<open>payload\<close> of an \<open>OperationMessage\<close>.  A \<open>json.RawMessage\<close> keeps
  any value, also null.
\<close>

definition OperationMessage_field ::
  "string \<Rightarrow> json \<Rightarrow> OperationMessage \<Rightarrow> string + OperationMessage" where
  "OperationMessage_field k v m =
    (if key_matches ''id'' k then
       (case decode_string v (msg_ID m) of Inl e \<Rightarrow> Inl e | Inr s \<Rightarrow> Inr (m\<lparr>msg_ID := s\<rparr>))
     else if key_matches ''type'' k then
       (case decode_string v (msg_Type m) of Inl e \<Rightarrow> Inl e | Inr s \<Rightarrow> Inr (m\<lparr>msg_Type := s\<rparr>))
     else if key_matches ''payload'' k then Inr (m\<lparr>msg_Payload := Some v\<rparr>)
     else Inr m)"

text \<open>
  \<open>ReadJSON(&operationMessage)\<close> with \<open>operationMessage\<close> a pointer to a new message: a JSON
  null stores the nil pointer (\<open>None\<close>), anything else is decoded into the message.
\<close>

definition decode_OperationMessage :: "json \<Rightarrow> goerr + OperationMessage option" where
  "decode_OperationMessage v = (case v of
       JNull \<Rightarrow> Inr None
     | _ \<Rightarrow> (case decode_struct OperationMessage_field v zero_OperationMessage of
           Inl e \<Rightarrow> Inl (JsonErr e)
         | Inr m \<Rightarrow> Inr (Some m)))"

definition GQLObject_field :: "string \<Rightarrow> json \<Rightarrow> GQLObject \<Rightarrow> string + GQLObject" where
  "GQLObject_field k v m =
    (if key_matches ''query'' k then
       (case decode_string v (obj_Query m) of Inl e \<Rightarrow> Inl e | Inr s \<Rightarrow> Inr (m\<lparr>obj_Query := s\<rparr>))
     else if key_matches ''variables'' k then
       (case decode_map v (obj_Variables m) of
          Inl e \<Rightarrow> Inl e | Inr vs \<Rightarrow> Inr (m\<lparr>obj_Variables := vs\<rparr>))
     else if key_matches ''operationName'' k then
       (case decode_string v (obj_OperationName m) of
          Inl e \<Rightarrow> Inl e | Inr s \<Rightarrow> Inr (m\<lparr>obj_OperationName := s\<rparr>))
     else Inr m)"

text \<open>\<open>json.Unmarshal\<close> of a payload: an empty payload is a syntax error.\<close>

definition decode_payload ::
  "(string \<Rightarrow> json \<Rightarrow> 'r \<Rightarrow> string + 'r) \<Rightarrow> json option \<Rightarrow> 'r \<Rightarrow> goerr + 'r" where
  "decode_payload step p r = (case p of
       None \<Rightarrow> Inl (JsonErr ''unexpected end of JSON input'')
     | Some v \<Rightarrow> (case decode_struct step v r of Inl e \<Rightarrow> Inl (JsonErr e) | Inr r' \<Rightarrow> Inr r'))"

definition decode_GQLObject :: "json option \<Rightarrow> goerr + GQLObject" where
  "decode_GQLObject p = decode_payload GQLObject_field p zero_GQLObject"

definition GQLStop_field :: "string \<Rightarrow> json \<Rightarrow> GQLStop \<Rightarrow> string + GQLStop" where
  "GQLStop_field k v m =
    (if key_matches ''id'' k then
       (case decode_string v (stop_ID m) of Inl e \<Rightarrow> Inl e | Inr s \<Rightarrow> Inr (m\<lparr>stop_ID := s\<rparr>))
     else Inr m)"

definition decode_GQLStop :: "json option \<Rightarrow> goerr + GQLStop" where
  "decode_GQLStop p = decode_payload GQLStop_field p zero_GQLStop"

subsection \<open>Writing messages\<close>

text \<open>\<open>omitempty\<close> leaves out an empty \<open>id\<close> or \<open>type\<close>; a nil \<open>payload\<close> is written as null.\<close>

definition encode_OperationMessage :: "OperationMessage \<Rightarrow> json" where
  "encode_OperationMessage m = JObj (
     (if msg_ID m = '''' then [] else [(''id'', JStr (json_text (msg_ID m)))]) @
     (if msg_Type m = '''' then [] else [(''type'', JStr (json_text (msg_Type m)))]) @
     [(''payload'', case msg_Payload m of None \<Rightarrow> JNull | Some v \<Rightarrow> v)])"

text \<open>
  \<open>json.Marshal\<close> of an error held in an interface writes the exported fields of its dynamic
  type: none for the values of \<open>errors.New\<close> and for a \<open>HandlerError\<close> (a nil pointer is
  null).  For the types of other packages it is the argument \<open>other\<close>.
\<close>

definition marshal_error :: "(goerr \<Rightarrow> go_value) \<Rightarrow> goerr \<Rightarrow> go_value" where
  "marshal_error other e = (case e of
       ErrNew s \<Rightarrow> Some (JObj [])
     | HandlerErr None \<Rightarrow> Some JNull
     | HandlerErr (Some h) \<Rightarrow> Some (JObj [])
     | _ \<Rightarrow> other e)"

fun marshal_list :: "go_value list \<Rightarrow> json list option" where
  "marshal_list [] = Some []"
| "marshal_list (v # vs) = (case v of None \<Rightarrow> None
     | Some j \<Rightarrow> (case marshal_list vs of None \<Rightarrow> None | Some js \<Rightarrow> Some (j # js)))"

definition marshal_errors :: "(goerr \<Rightarrow> go_value) \<Rightarrow> goerr list \<Rightarrow> go_value" where
  "marshal_errors other errs = map_option JArr (marshal_list (map (marshal_error other) errs))"

text \<open>\<open>json.Marshal\<close> of a string always succeeds, replacing what is not UTF-8.\<close>

definition marshal_string :: "string \<Rightarrow> go_value" where
  "marshal_string s = Some (JStr (json_text s))"

text \<open>\<open>errors\<close> has \<open>omitempty\<close>: a nil or empty slice is left out.\<close>

definition marshal_GQLDataObject :: "(goerr \<Rightarrow> go_value) \<Rightarrow> GQLDataObject \<Rightarrow> go_value" where
  "marshal_GQLDataObject other d = (case data_Data d of None \<Rightarrow> None
     | Some j \<Rightarrow> (case data_Errors d of
           None \<Rightarrow> Some (JObj [(''data'', j)])
         | Some [] \<Rightarrow> Some (JObj [(''data'', j)])
         | Some errs \<Rightarrow> map_option (\<lambda>es. JObj [(''data'', j), (''errors'', es)])
             (marshal_errors other errs)))"

lemma marshal_list_map_Some [simp]: "marshal_list (map Some js) = Some js"
  by (induction js) auto

lemma marshal_list_Some: "marshal_list vs = Some js \<longleftrightarrow> vs = map Some js"
  by (induction vs arbitrary: js) (auto split: option.splits)

lemma message_keys [simp]:
  "\<not> key_matches ''id'' ''type''" "\<not> key_matches ''id'' ''payload''"
  "\<not> key_matches ''type'' ''id''" "\<not> key_matches ''type'' ''payload''"
  "\<not> key_matches ''payload'' ''id''" "\<not> key_matches ''payload'' ''type''"
  "\<not> key_matches ''query'' ''variables''" "\<not> key_matches ''query'' ''operationName''"
  "\<not> key_matches ''variables'' ''operationName''" "\<not> key_matches ''variables'' ''query''"
  "\<not> key_matches ''operationName'' ''query''" "\<not> key_matches ''operationName'' ''variables''"
  by (simp_all add: key_matches_def ascii_lower_def)

lemma marshal_errors_plain:
  "marshal_errors other (map ErrNew ss) = Some (JArr (replicate (length ss) (JObj [])))"
proof -
  have "map (marshal_error other) (map ErrNew ss) = map Some (replicate (length ss) (JObj []))"
    by (induction ss) (auto simp: marshal_error_def)
  then show ?thesis by (simp only: marshal_errors_def marshal_list_map_Some option.map)
qed

text \<open>
  C25: what a message looks like on the wire, and that a peer with the same code reads it back.  The
  frame is an object with the keys \<open>id\<close> and \<open>type\<close>, unless they are empty, and \<open>payload\<close>, and no
  other, each once.  Reading it gives the id and the type, with every byte that is not UTF-8
  replaced, and the payload, a nil payload as the value null.  An id and a type in UTF-8 come back
  as they are.
\<close>

theorem message_roundtrip:
  "(\<exists>fs. encode_OperationMessage m = JObj fs \<and> distinct (map fst fs) \<and>
      set (map fst fs) \<subseteq> {''id'', ''type'', ''payload''} \<and>
      map_of fs ''id'' = (if msg_ID m = '''' then None else Some (JStr (json_text (msg_ID m)))) \<and>
      map_of fs ''type'' = (if msg_Type m = '''' then None else Some (JStr (json_text (msg_Type m)))) \<and>
      map_of fs ''payload'' = Some (case msg_Payload m of None \<Rightarrow> JNull | Some v \<Rightarrow> v)) \<and>
   decode_OperationMessage (encode_OperationMessage m) =
     Inr (Some \<lparr>msg_ID = json_text (msg_ID m), msg_Type = json_text (msg_Type m),
       msg_Payload = Some (case msg_Payload m of None \<Rightarrow> JNull | Some v \<Rightarrow> v)\<rparr>) \<and>
   (valid_utf8 (msg_ID m) \<and> valid_utf8 (msg_Type m) \<and> msg_Payload m \<noteq> None \<longrightarrow>
      decode_OperationMessage (encode_OperationMessage m) = Inr (Some m))"
  by (cases m)
    (auto simp: decode_OperationMessage_def encode_OperationMessage_def decode_struct_def
       OperationMessage_field_def zero_OperationMessage_def)

text \<open>A data message, and one whose id is a stray byte.\<close>

theorem message_roundtrip_witness:
  "decode_OperationMessage (encode_OperationMessage
     \<lparr>msg_ID = ''1'', msg_Type = ''data'', msg_Payload = Some (JNum ''2'')\<rparr>) =
   Inr (Some \<lparr>msg_ID = ''1'', msg_Type = ''data'', msg_Payload = Some (JNum ''2'')\<rparr>) \<and>
   decode_OperationMessage (encode_OperationMessage
     \<lparr>msg_ID = [CHR 0xFF], msg_Type = ''data'', msg_Payload = None\<rparr>) =
   Inr (Some \<lparr>msg_ID = [CHR 0xEF, CHR 0xBF, CHR 0xBD], msg_Type = ''data'', msg_Payload = Some JNull\<rparr>)"
proof -
  have "json_text [CHR 0xFF] = [CHR 0xEF, CHR 0xBF, CHR 0xBD]" by code_simp
  then show ?thesis
    using message_roundtrip [of "\<lparr>msg_ID = ''1'', msg_Type = ''data'', msg_Payload = Some (JNum ''2'')\<rparr>"]
      message_roundtrip [of "\<lparr>msg_ID = [CHR 0xFF], msg_Type = ''data'', msg_Payload = None\<rparr>"]
    by simp
qed

end
