(* ===== verification/HandlerLoops.thy ===== *)
theory HandlerLoops
  imports Structs
begin

text \<open>
  Handlers (\<open>handlers.go\<close>) and the loops over them.

  A \<open>Handler\<close> is any value; which of the handler interfaces it implements is found by a type
  assertion in each loop.  The record \<open>methods\<close> has one field per interface: \<open>None\<close> if the
  handler does not implement it.  Handlers are code of the users of the library (two are
  examples of the repository, one is the Redis handler), so the methods are arguments of the
  model: functions on the state \<open>'w\<close> of everything outside the connection, which may return
  or panic.
\<close>

datatype RWType = Read | Write

text \<open>
  A value in the slice of handlers: a comparable value (by its identity), or a
  \<open>[]Handler\<close>, of which only the length is kept; it implements no interface, and comparing
  it with another slice is a runtime panic.
\<close>

datatype handler = HObj nat | HSlice nat

fun handler_eq :: "handler \<Rightarrow> handler \<Rightarrow> bool option" where
  "handler_eq (HObj a) (HObj b) = Some (a = b)"
| "handler_eq (HSlice a) (HSlice b) = None"
| "handler_eq _ _ = Some False"

text \<open>
  A method takes its argument and the outside state.  A \<open>SubscriptionStartHandler\<close> gets the
  subscription, whose type \<open>'sub\<close> is defined later.
\<close>

type_synonym ('arg, 'r, 'w) go_method = "'arg \<Rightarrow> 'w \<Rightarrow> 'r call \<times> 'w"

record ('sub, 'w) methods =
  HandlePanic :: "(RWType \<times> panic, goerr option, 'w) go_method option"
  HandleConnectionInit :: "(GQLConnectionInit, goerr option, 'w) go_method option"
  HandleConnectionStart :: "(GQLStart, goerr list, 'w) go_method option"
  HandleConnectionStop :: "(GQLStop, goerr option, 'w) go_method option"
  HandleConnectionTerminate :: "(GQLConnectionTerminate, goerr option, 'w) go_method option"
  HandleSubscriptionStart :: "('sub, goerr option, 'w) go_method option"
  HandleSubscriptionStop :: "('sub, goerr option, 'w) go_method option"
  HandleWebsocketPong :: "(string, goerr option, 'w) go_method option"
  HandleWebsocketPing :: "(unit, goerr option, 'w) go_method option"
  HandleWebsocketClose :: "(int \<times> string, goerr option, 'w) go_method option"

definition no_methods :: "('sub, 'w) methods" where
  "no_methods = \<lparr>HandlePanic = None, HandleConnectionInit = None, HandleConnectionStart = None,
     HandleConnectionStop = None, HandleConnectionTerminate = None,
     HandleSubscriptionStart = None, HandleSubscriptionStop = None,
     HandleWebsocketPong = None, HandleWebsocketPing = None, HandleWebsocketClose = None\<rparr>"

text \<open>The methods of a handler value, given those of the comparable values.\<close>

fun methods_of :: "(nat \<Rightarrow> ('sub, 'w) methods) \<Rightarrow> handler \<Rightarrow> ('sub, 'w) methods" where
  "methods_of D (HObj n) = D n"
| "methods_of D (HSlice n) = no_methods"

lemma no_methods_simps [simp]:
  "HandlePanic no_methods = None" "HandleConnectionInit no_methods = None"
  "HandleConnectionStart no_methods = None" "HandleConnectionStop no_methods = None"
  "HandleConnectionTerminate no_methods = None" "HandleSubscriptionStart no_methods = None"
  "HandleSubscriptionStop no_methods = None" "HandleWebsocketPong no_methods = None"
  "HandleWebsocketPing no_methods = None" "HandleWebsocketClose no_methods = None"
  by (simp_all add: no_methods_def)

subsection \<open>The loop over the handlers\<close>

text \<open>
  What the body of a loop does with the result of a handler: go on with the next handler,
  \<open>break\<close>, or \<open>return\<close> from the enclosing function.
\<close>

datatype 'r ctl = Next | Break | Return 'r

datatype 'r loop_end = Completed | Broken | Returned 'r

fun cut_short :: "'r loop_end \<Rightarrow> bool" where
  "cut_short (Returned r) = True"
| "cut_short e = False"

text \<open>
  \<open>for _, handler := range c.Handlers { h, ok := handler.(I); if !ok { continue }; ... }\<close>:
  \<open>call\<close> is the type assertion and the call, \<open>react\<close> the rest of the body.
\<close>

fun each_handler ::
  "(handler \<Rightarrow> ('s \<Rightarrow> (panic, 'e, 's) prog) option) \<Rightarrow> ('e \<Rightarrow> 's \<Rightarrow> (panic, 'r ctl, 's) prog) \<Rightarrow>
    handler list \<Rightarrow> 's \<Rightarrow> (panic, 'r loop_end, 's) prog" where
  "each_handler call react [] s = Ret Completed s"
| "each_handler call react (h # hs) s =
    (case call h of
       None \<Rightarrow> each_handler call react hs s
     | Some m \<Rightarrow> andthen (m s) (\<lambda>e s. andthen (react e s) (\<lambda>ctl s. case ctl of
           Next \<Rightarrow> each_handler call react hs s
         | Break \<Rightarrow> Ret Broken s
         | Return r \<Rightarrow> Ret (Returned r) s)))"

lemma each_handler_append:
  "each_handler call react (xs @ ys) s =
   andthen (each_handler call react xs s) (\<lambda>e s. case e of
       Completed \<Rightarrow> each_handler call react ys s
     | Broken \<Rightarrow> Ret Broken s
     | Returned r \<Rightarrow> Ret (Returned r) s)"
proof (induction xs arbitrary: s)
  case (Cons x xs)
  then show ?case
    by (auto simp: andthen_assoc split: option.splits ctl.splits
        intro!: arg_cong2 [where f = andthen] ext)
qed simp

lemma each_handler_none:
  "(\<And>h. h \<in> set hs \<Longrightarrow> call h = None) \<Longrightarrow> each_handler call react hs s = Ret Completed s"
  by (induction hs) auto

text \<open>
  The bodies the code has for a handler that returns an \<open>error\<close>.  A \<open>*HandlerError\<close> is found
  by a type assertion, which also accepts a nil pointer; reading its flags then panics
  (\<open>Inl\<close>).
\<close>

type_synonym 'r reaction = "goerr option \<Rightarrow> panic + 'r ctl"

fun until_propagation_stopped :: "'r reaction" where
  "until_propagation_stopped (Some (HandlerErr None)) = Inl PNilDeref"
| "until_propagation_stopped (Some (HandlerErr (Some hErr))) =
     Inr (if propagationStopped hErr then Break else Next)"
| "until_propagation_stopped err = Inr Next"

fun until_stopped_or_error :: "goerr reaction" where
  "until_stopped_or_error None = Inr Next"
| "until_stopped_or_error (Some (HandlerErr None)) = Inl PNilDeref"
| "until_stopped_or_error (Some (HandlerErr (Some hErr))) =
     Inr (if propagationStopped hErr then Break else Next)"
| "until_stopped_or_error (Some e) = Inr (Return e)"

fun until_error :: "goerr reaction" where
  "until_error None = Inr Next"
| "until_error (Some e) = Inr (Return e)"

fun ignoring_errors :: "goerr reaction" where
  "ignoring_errors err = Inr Next"

definition do_reaction :: "'r reaction \<Rightarrow> goerr option \<Rightarrow> 's \<Rightarrow> (panic, 'r ctl, 's) prog" where
  "do_reaction react err s = (case react err of Inl p \<Rightarrow> Panic p s | Inr ctl \<Rightarrow> Ret ctl s)"

subsection \<open>The loop as a function of the outside state\<close>

text \<open>
  Handlers change nothing but the outside state, so a loop whose body only looks at the
  returned error is a function of that state: who is called, in which order, with which
  outcome.
\<close>

fun loop_spec ::
  "(handler \<Rightarrow> ('w \<Rightarrow> goerr option call \<times> 'w) option) \<Rightarrow> 'r reaction \<Rightarrow> handler list \<Rightarrow> 'w \<Rightarrow>
    (panic + 'r loop_end) \<times> 'w" where
  "loop_spec call react [] w = (Inr Completed, w)"
| "loop_spec call react (h # hs) w =
    (case call h of
       None \<Rightarrow> loop_spec call react hs w
     | Some m \<Rightarrow> (case m w of
           (Raises p, w') \<Rightarrow> (Inl p, w')
         | (Returns e, w') \<Rightarrow> (case react e of
               Inl p \<Rightarrow> (Inl p, w')
             | Inr Next \<Rightarrow> loop_spec call react hs w'
             | Inr Break \<Rightarrow> (Inr Broken, w')
             | Inr (Return r) \<Rightarrow> (Inr (Returned r), w'))))"

lemma loop_spec_append:
  "loop_spec call react (xs @ ys) w =
    (case loop_spec call react xs w of
       (Inr Completed, w') \<Rightarrow> loop_spec call react ys w'
     | other \<Rightarrow> other)"
  by (induction xs arbitrary: w) (auto split: option.splits prod.splits call.splits sum.splits ctl.splits)

lemma loop_spec_none:
  "(\<And>h. h \<in> set hs \<Longrightarrow> call h = None) \<Longrightarrow> loop_spec call react hs w = (Inr Completed, w)"
  by (induction hs) auto

text \<open>Only the handlers before and including the first that ends the loop matter.\<close>

lemma loop_spec_ended:
  "fst (loop_spec call react xs w) \<noteq> Inr Completed \<Longrightarrow>
   loop_spec call react (xs @ ys) w = loop_spec call react xs w"
  by (auto simp: loop_spec_append split: prod.splits sum.splits loop_end.splits)

lemma loop_spec_ignoring:
  "fst (loop_spec call ignoring_errors hs w) = Inr e \<Longrightarrow> e = Completed"
  by (induction hs arbitrary: w)
    (auto split: option.splits prod.splits call.splits)

lemma loop_spec_stop_not_returned:
  "fst (loop_spec call until_propagation_stopped hs w) \<noteq> Inr (Returned r)"
proof (induction hs arbitrary: w)
  case (Cons h hs)
  have "until_propagation_stopped e \<noteq> Inr (Return r)" for e
    by (cases e rule: until_propagation_stopped.cases) auto
  with Cons show ?case
    by (auto split: option.splits prod.splits call.splits sum.splits ctl.splits)
qed simp

text \<open>Handlers that return and do not use a nil \<open>*HandlerError\<close> never make a loop panic.\<close>

definition calm :: "(handler \<Rightarrow> ('w \<Rightarrow> goerr option call \<times> 'w) option) \<Rightarrow> handler list \<Rightarrow> bool" where
  "calm call hs \<longleftrightarrow> (\<forall>h \<in> set hs. \<forall>m. call h = Some m \<longrightarrow>
     (\<forall>w. \<exists>e w'. m w = (Returns e, w') \<and> e \<noteq> Some (HandlerErr None)))"

lemma reactions_calm:
  assumes "e \<noteq> Some (HandlerErr None)"
  shows "until_propagation_stopped e \<noteq> Inl p" and "until_stopped_or_error e \<noteq> Inl p"
    and "until_error e \<noteq> Inl p" and "ignoring_errors e \<noteq> Inl p"
proof -
  show "until_propagation_stopped e \<noteq> Inl p"
    using assms by (cases e rule: until_propagation_stopped.cases) auto
  show "until_stopped_or_error e \<noteq> Inl p"
    using assms by (cases e rule: until_stopped_or_error.cases) auto
  show "until_error e \<noteq> Inl p" by (cases e) auto
  show "ignoring_errors e \<noteq> Inl p" by simp
qed

lemma calm_loop:
  assumes "calm call hs" and "\<And>e. e \<noteq> Some (HandlerErr None) \<Longrightarrow> react e \<noteq> Inl p"
  shows "fst (loop_spec call react hs w) \<noteq> Inl p"
  using assms(1)
proof (induction hs arbitrary: w)
  case (Cons h hs)
  have hs: "calm call hs" using Cons.prems by (auto simp: calm_def)
  show ?case
  proof (cases "call h")
    case None
    then show ?thesis using Cons.IH hs by simp
  next
    case (Some m)
    then obtain e w' where "m w = (Returns e, w')" and "e \<noteq> Some (HandlerErr None)"
      using Cons.prems by (fastforce simp: calm_def)
    then show ?thesis
      using Some assms(2) [of e] Cons.IH [OF hs, of w']
      by (auto split: sum.splits ctl.splits)
  qed
qed simp

end
