(* ===== verification/DocumentFields.thy ===== *)
theory DocumentFields
  imports GoPrelude
begin

text \<open>
  The names of the fields a query document subscribes to (\<open>ast.go\<close>).  The syntax tree is
  the one of \<open>graphql-go\<close>'s parser: of a definition the code reads its kind, and of an
  operation definition its operation and its selection set, which may be the nil pointer; of
  a selection it reads the name if the selection is a field.
\<close>

datatype selection =
    Field string
  | InlineFragment
  | FragmentSpread

type_synonym SelectionSet = "selection list"

datatype node =
    OperationDefinition string string "SelectionSet option"
  | OtherNode string

type_synonym Document = "node list"

fun node_kind :: "node \<Rightarrow> string" where
  "node_kind (OperationDefinition k op sels) = k"
| "node_kind (OtherNode k) = k"

type_synonym OperationDef = "string \<times> SelectionSet option"

fun operationDefinitionsWithOperation :: "Document \<Rightarrow> string \<Rightarrow> OperationDef list" where
  "operationDefinitionsWithOperation [] op = []"
| "operationDefinitionsWithOperation (node # rest) op =
    (if node_kind node = ''OperationDefinition'' then
       (case node of
          OperationDefinition k o' sels \<Rightarrow>
            (if o' = op then (o', sels) # operationDefinitionsWithOperation rest op
             else operationDefinitionsWithOperation rest op)
        | OtherNode k \<Rightarrow> operationDefinitionsWithOperation rest op)
     else operationDefinitionsWithOperation rest op)"

fun selectionSetsForOperationDefinitions :: "OperationDef list \<Rightarrow> SelectionSet list" where
  "selectionSetsForOperationDefinitions [] = []"
| "selectionSetsForOperationDefinitions (def # defs) =
    (case snd def of
       Some sels \<Rightarrow> sels # selectionSetsForOperationDefinitions defs
     | None \<Rightarrow> selectionSetsForOperationDefinitions defs)"

text \<open>
  The slice made with the length of the selections holds the empty string where a selection
  is not a field.
\<close>

fun selection_name :: "selection \<Rightarrow> string" where
  "selection_name (Field name) = name"
| "selection_name InlineFragment = ''''"
| "selection_name FragmentSpread = ''''"

definition nameForSelectionSet :: "SelectionSet \<Rightarrow> string list option" where
  "nameForSelectionSet sels =
    (if length sels \<ge> 1 then Some (map selection_name sels) else None)"

fun namesForSelectionSets :: "SelectionSet list \<Rightarrow> string list" where
  "namesForSelectionSets [] = []"
| "namesForSelectionSets (sels # sets) =
    (case nameForSelectionSet sels of
       Some nameList \<Rightarrow> nameList @ namesForSelectionSets sets
     | None \<Rightarrow> namesForSelectionSets sets)"

definition SubscriptionFieldNamesFromDocument :: "Document \<Rightarrow> string list" where
  "SubscriptionFieldNamesFromDocument doc =
    (let defs = operationDefinitionsWithOperation doc ''subscription'';
         sets = selectionSetsForOperationDefinitions defs
     in namesForSelectionSets sets)"

subsection \<open>What the three passes compute together\<close>

text \<open>The selections of a definition that count: those of a subscription operation.\<close>

fun subscribed_selections :: "node \<Rightarrow> selection list" where
  "subscribed_selections (OperationDefinition k op (Some sels)) =
    (if k = ''OperationDefinition'' \<and> op = ''subscription'' then sels else [])"
| "subscribed_selections node = []"

lemma operationDefinitionsWithOperation_append:
  "operationDefinitionsWithOperation (d @ e) op =
   operationDefinitionsWithOperation d op @ operationDefinitionsWithOperation e op"
  by (induction d) (auto split: node.splits)

lemma selectionSets_append:
  "selectionSetsForOperationDefinitions (d @ e) =
   selectionSetsForOperationDefinitions d @ selectionSetsForOperationDefinitions e"
  by (induction d) (auto split: option.splits)

lemma namesForSelectionSets_append:
  "namesForSelectionSets (d @ e) = namesForSelectionSets d @ namesForSelectionSets e"
  by (induction d) (auto split: option.splits)

lemma field_names_append:
  "SubscriptionFieldNamesFromDocument (d @ e) =
   SubscriptionFieldNamesFromDocument d @ SubscriptionFieldNamesFromDocument e"
  by (simp add: SubscriptionFieldNamesFromDocument_def operationDefinitionsWithOperation_append
      selectionSets_append namesForSelectionSets_append)

lemma field_names_Nil [simp]: "SubscriptionFieldNamesFromDocument [] = []"
  by (simp add: SubscriptionFieldNamesFromDocument_def)

lemma field_names_single:
  "SubscriptionFieldNamesFromDocument [node] = map selection_name (subscribed_selections node)"
proof (cases node)
  case (OperationDefinition k op sels)
  then show ?thesis
    by (cases sels)
      (auto simp: SubscriptionFieldNamesFromDocument_def nameForSelectionSet_def Let_def
        not_less_eq_eq)
qed (simp add: SubscriptionFieldNamesFromDocument_def)

lemma field_names_Cons:
  "SubscriptionFieldNamesFromDocument (node # doc) =
   map selection_name (subscribed_selections node) @ SubscriptionFieldNamesFromDocument doc"
  using field_names_append [of "[node]" doc] by (simp add: field_names_single)

text \<open>
  C21: the three passes of \<open>SubscriptionFieldNamesFromDocument\<close> over definitions, selection
  sets and selections give, in document order, the names of the selections of the
  document's subscription operations, one entry per selection (the empty name for a
  fragment), and nothing for other operations or for definitions without selections.
\<close>

theorem field_names_are_the_subscribed_selections:
  "SubscriptionFieldNamesFromDocument doc =
   map selection_name (concat (map subscribed_selections doc))"
  by (induction doc) (simp_all add: field_names_Cons)

lemma mem_field_names:
  "f \<in> set (SubscriptionFieldNamesFromDocument doc) \<longleftrightarrow>
   (\<exists>sels s. OperationDefinition ''OperationDefinition'' ''subscription'' (Some sels) \<in> set doc
      \<and> s \<in> set sels \<and> selection_name s = f)"
proof (induction doc)
  case (Cons node doc)
  have "f \<in> selection_name ` set (subscribed_selections node) \<longleftrightarrow>
      (\<exists>sels s. node = OperationDefinition ''OperationDefinition'' ''subscription'' (Some sels)
        \<and> s \<in> set sels \<and> selection_name s = f)"
    by (cases node rule: subscribed_selections.cases) auto
  with Cons show ?case by (auto simp: field_names_Cons)
qed simp

end
