(* ===== verification/Subscriptions.thy ===== *)
theory Subscriptions
  imports Structs DocumentFields
begin

text \<open>
  Subscriptions (\<open>subscription.go\<close>): the record of a subscription, its validation, and which
  fields it matches.  \<open>SendData\<close>, which uses the connection, is in theory \<open>Connection\<close>.  A
  connection and a schema are pointers: \<open>None\<close> is nil.
\<close>

record Subscription =
  sub_ID :: string
  sub_Query :: string
  sub_Variables :: "go_map option"
  sub_OperationName :: string
  sub_Document :: "Document option"
  sub_Fields :: "string list"
  sub_Schema :: "nat option"
  sub_Connection :: "nat option"

definition ValidateSubscription :: "Subscription \<Rightarrow> goerr list" where
  "ValidateSubscription s =
    (let errs = [];
         errs = (if sub_ID s = '''' then errs @ [ErrSubscriptionIDEmpty] else errs);
         errs = (if sub_Connection s = None then errs @ [ErrSubscriptionHasNoConnection] else errs);
         errs = (if sub_Query s = '''' then errs @ [ErrSubscriptionHasNoQuery] else errs)
     in errs)"

fun any_name :: "string list \<Rightarrow> string \<Rightarrow> bool" where
  "any_name [] field = False"
| "any_name (name # names) field = (if name = field then True else any_name names field)"

definition MatchesField :: "Subscription \<Rightarrow> string \<Rightarrow> bool" where
  "MatchesField s field =
    (if sub_Document s = None \<or> length (sub_Fields s) = 0 then False
     else any_name (sub_Fields s) field)"

lemma any_name_iff: "any_name names f \<longleftrightarrow> f \<in> set names"
  by (induction names) auto

lemma MatchesField_iff: "MatchesField s f \<longleftrightarrow> sub_Document s \<noteq> None \<and> f \<in> set (sub_Fields s)"
  by (auto simp: MatchesField_def any_name_iff)

lemma ValidateSubscription_empty_iff:
  "ValidateSubscription s = [] \<longleftrightarrow>
   sub_ID s \<noteq> '''' \<and> sub_Connection s \<noteq> None \<and> sub_Query s \<noteq> ''''"
  by (auto simp: ValidateSubscription_def)

text \<open>
  \<open>ValidateSubscription\<close> reports exactly the defects a subscription has, each once: an
  empty id, no connection, an empty query; it reports nothing if and only if there is none.
\<close>

lemma ValidateSubscription_reports_the_defects:
  "set (ValidateSubscription s) =
     {e. e = ErrSubscriptionIDEmpty \<and> sub_ID s = '''' \<or>
         e = ErrSubscriptionHasNoConnection \<and> sub_Connection s = None \<or>
         e = ErrSubscriptionHasNoQuery \<and> sub_Query s = ''''} \<and>
   distinct (ValidateSubscription s)"
  by (cases "sub_ID s = ''''"; cases "sub_Connection s = None"; cases "sub_Query s = ''''")
    (auto simp: ValidateSubscription_def Let_def dest: sym)

text \<open>
  A subscription whose \<open>Fields\<close> are those of its document matches exactly the fields
  that a subscription operation of the document selects.
\<close>

lemma MatchesField_document:
  assumes "sub_Document s = Some doc"
    and "sub_Fields s = SubscriptionFieldNamesFromDocument doc"
  shows "MatchesField s f \<longleftrightarrow>
    (\<exists>sels x. OperationDefinition ''OperationDefinition'' ''subscription'' (Some sels) \<in> set doc
       \<and> x \<in> set sels \<and> selection_name x = f)"
  using assms by (simp add: MatchesField_iff mem_field_names)

definition example_document :: Document where
  "example_document =
    [OperationDefinition ''OperationDefinition'' ''subscription'' (Some [Field ''onJoin'', Field ''onLeft'']),
     OperationDefinition ''OperationDefinition'' ''query'' (Some [Field ''me''])]"

definition example_subscription :: Subscription where
  "example_subscription = \<lparr>sub_ID = ''1'', sub_Query = ''q'', sub_Variables = None,
     sub_OperationName = '''', sub_Document = Some example_document,
     sub_Fields = SubscriptionFieldNamesFromDocument example_document,
     sub_Schema = Some 0, sub_Connection = Some 0\<rparr>"

lemma MatchesField_document_witness:
  "MatchesField example_subscription ''onLeft'' \<and> \<not> MatchesField example_subscription ''me''"
proof -
  have doc: "sub_Document example_subscription = Some example_document"
    and fields: "sub_Fields example_subscription =
      SubscriptionFieldNamesFromDocument example_document"
    by (simp_all add: example_subscription_def)
  show ?thesis
    unfolding MatchesField_document [OF doc fields] by (auto simp: example_document_def)
qed

end
