(* ===== verification/Configuration.thy ===== *)
theory Configuration
  imports GoPrelude "HOL-Library.Word" "HOL-Library.Signed_Division"
begin

text \<open>
  Configuration (\<open>config.go\<close>) and the period of the ping ticker that \<open>processMessages\<close>
  derives from it.

  The fields of \<open>Config\<close> are pointers, and a factory starts with the pointers of
  \<open>DefaultConfig\<close>, so whether a factory can change the defaults depends on the aliasing.  The
  variables are therefore kept in an explicit store: a list of 64-bit cells indexed by
  address, which \<open>&value\<close> extends by one.
\<close>

type_synonym int64 = "64 word"
type_synonym store = "int64 list"
type_synonym addr = nat

definition KB :: int64 where "KB = 1024"
definition MB :: int64 where "MB = 1024 * KB"
definition GB :: int64 where "GB = 1024 * MB"

definition time_Second :: int64 where "time_Second = 1000000000"

record Config =
  cfg_ReadLimit :: "addr option"
  cfg_PongWait :: "addr option"
  cfg_WriteTimeout :: "addr option"

text \<open>The package variables \<open>defaultReadLimit\<close>, \<open>defaultPongWait\<close>, \<open>defaultWriteTimeout\<close>.\<close>

definition initial_store :: store where
  "initial_store = [5 * KB, time_Second * 60, time_Second * 15]"

definition DefaultConfig :: Config where
  "DefaultConfig = \<lparr>cfg_ReadLimit = Some 0, cfg_PongWait = Some 1, cfg_WriteTimeout = Some 2\<rparr>"

definition deref :: "store \<Rightarrow> addr option \<Rightarrow> int64 option" where
  "deref h p = (case p of None \<Rightarrow> None | Some a \<Rightarrow> if a < length h then Some (h ! a) else None)"

subsection \<open>\<open>configFactory\<close>\<close>

record configFactory =
  cf_config :: Config

type_synonym factory_state = "store \<times> configFactory"

definition NewConfigFactory :: "store \<Rightarrow> factory_state" where
  "NewConfigFactory h = (h, \<lparr>cf_config = DefaultConfig\<rparr>)"

definition cf_ReadLimit :: "int64 \<Rightarrow> factory_state \<Rightarrow> factory_state" where
  "cf_ReadLimit v s = (fst s @ [v],
     (snd s)\<lparr>cf_config := (cf_config (snd s))\<lparr>cfg_ReadLimit := Some (length (fst s))\<rparr>\<rparr>)"

definition cf_PongWait :: "int64 \<Rightarrow> factory_state \<Rightarrow> factory_state" where
  "cf_PongWait v s = (fst s @ [v],
     (snd s)\<lparr>cf_config := (cf_config (snd s))\<lparr>cfg_PongWait := Some (length (fst s))\<rparr>\<rparr>)"

definition cf_WriteTimeout :: "int64 \<Rightarrow> factory_state \<Rightarrow> factory_state" where
  "cf_WriteTimeout v s = (fst s @ [v],
     (snd s)\<lparr>cf_config := (cf_config (snd s))\<lparr>cfg_WriteTimeout := Some (length (fst s))\<rparr>\<rparr>)"

definition cf_Build :: "factory_state \<Rightarrow> Config" where
  "cf_Build s = cf_config (snd s)"

text \<open>What a connection reads through the pointers of its configuration.\<close>

record config_values =
  ReadLimit :: "int64 option"
  PongWait :: "int64 option"
  WriteTimeout :: "int64 option"

definition load_config :: "store \<Rightarrow> Config \<Rightarrow> config_values" where
  "load_config h c = \<lparr>ReadLimit = deref h (cfg_ReadLimit c), PongWait = deref h (cfg_PongWait c),
     WriteTimeout = deref h (cfg_WriteTimeout c)\<rparr>"

definition built :: "factory_state \<Rightarrow> config_values" where
  "built s = load_config (fst s) (cf_Build s)"

text \<open>The pointers of a factory are addresses of the store.\<close>

fun ptr_ok :: "store \<Rightarrow> addr option \<Rightarrow> bool" where
  "ptr_ok h None = True"
| "ptr_ok h (Some a) = (a < length h)"

definition factory_ok :: "factory_state \<Rightarrow> bool" where
  "factory_ok s \<longleftrightarrow> ptr_ok (fst s) (cfg_ReadLimit (cf_Build s)) \<and>
     ptr_ok (fst s) (cfg_PongWait (cf_Build s)) \<and> ptr_ok (fst s) (cfg_WriteTimeout (cf_Build s))"

lemma deref_append: "ptr_ok h p \<Longrightarrow> deref (h @ vs) p = deref h p"
  by (cases p) (simp_all add: deref_def nth_append)

lemma deref_new [simp]: "deref (h @ [v]) (Some (length h)) = Some v"
  by (simp add: deref_def)

lemma ptr_ok_append: "ptr_ok h p \<Longrightarrow> ptr_ok (h @ vs) p"
  by (cases p) simp_all

lemmas factory_defs =
  cf_ReadLimit_def cf_PongWait_def cf_WriteTimeout_def cf_Build_def built_def load_config_def
  factory_ok_def

subsection \<open>Options of a factory\<close>

text \<open>
  The contract of one setter of a factory: it is read back, and of two settings the later one
  counts.  Two independent options can be set in either order.
\<close>

locale config_option =
  fixes put :: "'v \<Rightarrow> 's \<Rightarrow> 's"
    and view :: "'s \<Rightarrow> 'v option"
    and ok :: "'s \<Rightarrow> bool"
  assumes view_put: "ok s \<Longrightarrow> view (put v s) = Some v"
    and ok_put: "ok s \<Longrightarrow> ok (put v s)"
begin

lemma later_setting_wins: "ok s \<Longrightarrow> view (put v (put w s)) = Some v"
  by (simp add: view_put ok_put)

end

locale independent_options =
  a: config_option puta viewa ok + b: config_option putb viewb ok
  for puta :: "'v \<Rightarrow> 's \<Rightarrow> 's" and viewa and putb :: "'u \<Rightarrow> 's \<Rightarrow> 's" and viewb and ok +
  assumes a_keeps_b: "ok s \<Longrightarrow> viewb (puta v s) = viewb s"
    and b_keeps_a: "ok s \<Longrightarrow> viewa (putb w s) = viewa s"
begin

lemma either_order:
  assumes "ok s"
  shows "viewa (puta v (putb w s)) = viewa (putb w (puta v s))"
    and "viewb (puta v (putb w s)) = viewb (putb w (puta v s))"
  using assms by (simp_all add: a_keeps_b b_keeps_a a.view_put b.view_put a.ok_put b.ok_put)

end

interpretation read_pong: independent_options
  cf_ReadLimit "\<lambda>s. ReadLimit (built s)" cf_PongWait "\<lambda>s. PongWait (built s)" factory_ok
  by unfold_locales (auto simp: factory_defs deref_append ptr_ok_append)

interpretation read_write: independent_options
  cf_ReadLimit "\<lambda>s. ReadLimit (built s)" cf_WriteTimeout "\<lambda>s. WriteTimeout (built s)" factory_ok
  by unfold_locales (auto simp: factory_defs deref_append ptr_ok_append)

interpretation pong_write: independent_options
  cf_PongWait "\<lambda>s. PongWait (built s)" cf_WriteTimeout "\<lambda>s. WriteTimeout (built s)" factory_ok
  by unfold_locales (auto simp: factory_defs deref_append ptr_ok_append)

text \<open>A chain of setters, as \<open>NewConfigFactory().ReadLimit(...).PongWait(...)\<close> writes it.\<close>

datatype option_call = SetReadLimit int64 | SetPongWait int64 | SetWriteTimeout int64

fun apply_option :: "option_call \<Rightarrow> factory_state \<Rightarrow> factory_state" where
  "apply_option (SetReadLimit v) s = cf_ReadLimit v s"
| "apply_option (SetPongWait v) s = cf_PongWait v s"
| "apply_option (SetWriteTimeout v) s = cf_WriteTimeout v s"

fun overlay :: "option_call \<Rightarrow> config_values \<Rightarrow> config_values" where
  "overlay (SetReadLimit v) c = c\<lparr>ReadLimit := Some v\<rparr>"
| "overlay (SetPongWait v) c = c\<lparr>PongWait := Some v\<rparr>"
| "overlay (SetWriteTimeout v) c = c\<lparr>WriteTimeout := Some v\<rparr>"

lemma factory_ok_apply: "factory_ok s \<Longrightarrow> factory_ok (apply_option c s)"
  by (cases c) (simp_all add: read_pong.a.ok_put read_pong.b.ok_put read_write.b.ok_put)

lemma built_apply: "factory_ok s \<Longrightarrow> built (apply_option c s) = overlay c (built s)"
  by (cases c) (auto simp: factory_defs deref_append)

lemma store_apply: "\<exists>vs. fst (apply_option c s) = fst s @ vs"
  by (cases c) (auto simp: factory_defs)

lemma built_apply_all:
  "factory_ok s \<Longrightarrow> built (fold apply_option cs s) = fold overlay cs (built s)"
  by (induction cs arbitrary: s) (simp_all add: factory_ok_apply built_apply)

lemma store_apply_all: "\<exists>vs. fst (fold apply_option cs s) = fst s @ vs"
proof (induction cs arbitrary: s)
  case (Cons c cs)
  obtain v1 where v1: "fst (apply_option c s) = fst s @ v1" using store_apply by blast
  obtain v2 where "fst (fold apply_option cs (apply_option c s)) = fst (apply_option c s) @ v2"
    using Cons.IH by blast
  with v1 show ?case by simp
qed simp

lemma factory_ok_new: "factory_ok (NewConfigFactory (initial_store @ vs))"
  by (simp add: NewConfigFactory_def DefaultConfig_def factory_defs initial_store_def)

lemma built_new:
  "built (NewConfigFactory (initial_store @ vs)) =
   \<lparr>ReadLimit = Some (5 * KB), PongWait = Some (time_Second * 60),
    WriteTimeout = Some (time_Second * 15)\<rparr>"
  by (simp add: NewConfigFactory_def DefaultConfig_def factory_defs deref_def initial_store_def
      nth_append)

text \<open>
  C22: whatever chain of setters is called on a new factory, \<open>Build\<close> gives the default
  configuration overlaid with the settings in order (a later setting of the same option
  wins), and no setter writes to a cell that existed before: the defaults and every
  configuration built earlier are untouched.
\<close>

theorem factory_builds_overlaid_defaults:
  fixes cs :: "option_call list" and vs :: store
  defines "s \<equiv> fold apply_option cs (NewConfigFactory (initial_store @ vs))"
  shows "built s = fold overlay cs \<lparr>ReadLimit = Some 5120, PongWait = Some 60000000000,
           WriteTimeout = Some 15000000000\<rparr> \<and>
         (\<exists>new. fst s = initial_store @ vs @ new)"
proof
  show "built s = fold overlay cs \<lparr>ReadLimit = Some 5120, PongWait = Some 60000000000,
           WriteTimeout = Some 15000000000\<rparr>"
    unfolding s_def
    by (simp add: built_apply_all factory_ok_new built_new KB_def time_Second_def)
  show "\<exists>new. fst s = initial_store @ vs @ new"
    unfolding s_def
    using store_apply_all [of cs "NewConfigFactory (initial_store @ vs)"]
    by (auto simp: NewConfigFactory_def)
qed

subsection \<open>\<open>handlerConfigFactory\<close>\<close>

text \<open>The upgrader and the schema are pointers: \<open>None\<close> is nil.\<close>

record HandlerConfig =
  hc_Upgrader :: "nat option"
  hc_Schema :: "nat option"

record handlerConfigFactory =
  hcf_config :: HandlerConfig

definition NewHandlerConfigFactory :: handlerConfigFactory where
  "NewHandlerConfigFactory = \<lparr>hcf_config = \<lparr>hc_Upgrader = None, hc_Schema = None\<rparr>\<rparr>"

definition hcf_Schema :: "nat option \<Rightarrow> handlerConfigFactory \<Rightarrow> handlerConfigFactory" where
  "hcf_Schema schema f = f\<lparr>hcf_config := (hcf_config f)\<lparr>hc_Schema := schema\<rparr>\<rparr>"

definition hcf_Upgrader :: "nat option \<Rightarrow> handlerConfigFactory \<Rightarrow> handlerConfigFactory" where
  "hcf_Upgrader upgrader f = f\<lparr>hcf_config := (hcf_config f)\<lparr>hc_Upgrader := upgrader\<rparr>\<rparr>"

definition hcf_Build :: "handlerConfigFactory \<Rightarrow> HandlerConfig" where
  "hcf_Build f = hcf_config f"

lemmas handler_factory_defs =
  NewHandlerConfigFactory_def hcf_Schema_def hcf_Upgrader_def hcf_Build_def

interpretation schema_upgrader: independent_options
  hcf_Schema "\<lambda>f. Some (hc_Schema (hcf_Build f))"
  hcf_Upgrader "\<lambda>f. Some (hc_Upgrader (hcf_Build f))" "\<lambda>_. True"
  by unfold_locales (auto simp: handler_factory_defs)

subsection \<open>The period of the ping ticker\<close>

text \<open>
  \<open>pongWait\<close> is a \<open>time.Duration\<close>, a signed 64-bit number of nanoseconds: the product wraps
  around, and Go's division truncates towards zero.
\<close>

definition pong_wait :: "config_values \<Rightarrow> int64" where
  "pong_wait c = (case PongWait c of None \<Rightarrow> time_Second * 60 | Some d \<Rightarrow> d)"

definition ping_interval :: "int64 \<Rightarrow> int64" where
  "ping_interval pongWait = word_of_int (sint (pongWait * 9) sdiv 10)"

text \<open>\<open>time.NewTicker\<close> panics when the period is not positive.\<close>

definition ticker_ok :: "int64 \<Rightarrow> bool" where
  "ticker_ok d \<longleftrightarrow> 0 < sint d"

lemma sint_mult_9:
  assumes "0 \<le> sint d" and "9 * sint d < 2 ^ 63"
  shows "sint (d * 9 :: int64) = 9 * sint d"
  using assms by (simp add: sint_word_mult signed_take_bit_int_eq_self mult.commute)

lemma sdiv_10_nonneg: "0 \<le> x \<Longrightarrow> x sdiv 10 = x div (10 :: int)"
  by (simp add: signed_divide_int_def sgn_if)

lemma sint_ping_interval:
  assumes "0 \<le> sint d" and "9 * sint d < 2 ^ 63"
  shows "sint (ping_interval d) = 9 * sint d div 10"
proof -
  have "sint (ping_interval d) = sint (word_of_int (9 * sint d div 10) :: int64)"
    using assms by (simp add: ping_interval_def sint_mult_9 sdiv_10_nonneg)
  also have "\<dots> = 9 * sint d div 10"
    using assms by (simp add: sint_sbintrunc' signed_take_bit_int_eq_self)
  finally show ?thesis .
qed

text \<open>
  C23: for every \<open>PongWait\<close> from 2 nanoseconds up to a ninth of the largest duration (about
  32 years) the ticker is created, and it fires before the read deadline that the last pong
  set: its period is nine tenths of \<open>PongWait\<close>, rounded down, and shorter than \<open>PongWait\<close>.
\<close>

theorem ping_before_pong_deadline:
  assumes "2 \<le> sint d" and "sint d \<le> 1024819115206086200"
  shows "ticker_ok (ping_interval d) \<and> sint (ping_interval d) = 9 * sint d div 10 \<and>
         sint (ping_interval d) < sint d"
proof -
  have "sint (ping_interval d) = 9 * sint d div 10"
    using assms by (intro sint_ping_interval) auto
  then show ?thesis using assms by (auto simp: ticker_ok_def)
qed

theorem ping_before_pong_deadline_witness:
  "ticker_ok (ping_interval 60000000000) \<and>
   sint (ping_interval 60000000000) = 9 * sint (60000000000 :: int64) div 10 \<and>
   sint (ping_interval 60000000000) < sint (60000000000 :: int64)"
  by (rule ping_before_pong_deadline) simp_all

text \<open>
  Outside that range the period need not be positive, and then \<open>time.NewTicker\<close> panics:
  a \<open>PongWait\<close> of zero or one nanosecond gives period 0, and one nanosecond above the
  upper bound the product overflows to a negative duration.
\<close>

lemma ping_interval_fails_outside:
  "\<not> ticker_ok (ping_interval 0) \<and> \<not> ticker_ok (ping_interval 1) \<and>
   \<not> ticker_ok (ping_interval 1024819115206086201)"
  by (simp add: ticker_ok_def ping_interval_def signed_divide_int_def)

end
