(* ===== verification/Connection.thy ===== *)
theory Connection
  imports HandlerLoops Subscriptions Configuration
begin

text \<open>
  The connection (\<open>connection.go\<close>): its state, its locks and channels, sending, closing, the
  registration of handlers.  What a goroutine does with arriving messages is in theory
  \<open>Processing\<close>.
\<close>

subsection \<open>What lies outside the repository\<close>

text \<open>
  The websocket (\<open>gorilla/websocket\<close>), the GraphQL library and the handlers, as functions on
  the outside state \<open>'w\<close>.  A deadline is given as its distance from the present time.
\<close>

datatype control_frame = PingMessage | CloseMessage

record 'w env =
  ws_WriteJSON :: "json \<Rightarrow> 'w \<Rightarrow> goerr option \<times> 'w"
  ws_WriteMessage :: "control_frame \<Rightarrow> 'w \<Rightarrow> goerr option \<times> 'w"
  ws_WriteControl :: "control_frame \<Rightarrow> int64 \<Rightarrow> 'w \<Rightarrow> goerr option \<times> 'w"
  ws_Close :: "'w \<Rightarrow> goerr option \<times> 'w"
  ws_SetReadDeadline :: "int64 \<Rightarrow> 'w \<Rightarrow> goerr option \<times> 'w"
  ws_SetWriteDeadline :: "int64 \<Rightarrow> 'w \<Rightarrow> goerr option \<times> 'w"
  ws_SetReadLimit :: "int64 \<Rightarrow> 'w \<Rightarrow> unit \<times> 'w"
  gq_Parse :: "string \<Rightarrow> goerr + Document"
  gq_IsValid :: "nat option \<Rightarrow> Document \<Rightarrow> bool"
  other_errors :: "goerr \<Rightarrow> go_value"
  impls :: "nat \<Rightarrow> (Subscription, 'w) methods"

subsection \<open>The state of a connection\<close>

datatype ConnState =
    connStateUndefined
  | connStateInitializing
  | connStateEstablished
  | connStateClosed

text \<open>
  A \<open>*OperationMessage\<close>: nil, the address of \<open>operationMessageEOF\<close>, or another message.  The
  code tells the end-of-file message from others by its address, not by its contents.
\<close>

datatype msgptr = NilMsg | operationMessageEOF | Msg OperationMessage

record 'w conn =
  c_id :: nat
  c_Schema :: "nat option"
  c_Subscriptions :: "string \<rightharpoonup> Subscription"
  c_state :: ConnState
  c_Handlers :: "handler list"
  c_config :: config_values
  c_outgoing :: "msgptr chan"
  c_incoming :: "msgptr chan"
  c_shutdown :: bool
  c_wlock :: bool
  c_rlocks :: nat
  c_hlock :: bool
  c_world :: 'w

text \<open>
  \<open>c_shutdown\<close> says that the channel \<open>shutdown\<close> was closed (nothing is ever sent on it).
  \<open>c_wlock\<close> and \<open>c_rlocks\<close> are the writer and the number of readers that hold \<open>stateMutex\<close>,
  \<open>c_hlock\<close> is \<open>handlersMutex\<close>.
\<close>

type_synonym ('a, 'w) cprog = "(panic, 'a, 'w conn) prog"

text \<open>\<open>NewConn\<close>; the counter of connections is an unsigned 64-bit number that wraps around.\<close>

definition NewConn :: "nat option \<Rightarrow> config_values \<Rightarrow> 64 word \<Rightarrow> 'w \<Rightarrow> 64 word \<times> 'w conn" where
  "NewConn schema config count w = (count + 1,
     \<lparr>c_id = unat (count + 1), c_Schema = schema, c_Subscriptions = Map.empty,
      c_state = connStateUndefined, c_Handlers = [], c_config = config,
      c_outgoing = make_chan 10, c_incoming = make_chan 10, c_shutdown = False,
      c_wlock = False, c_rlocks = 0, c_hlock = False, c_world = w\<rparr>)"

subsection \<open>Locks, channels, calls\<close>

definition lock_state :: "'w conn \<Rightarrow> (unit, 'w) cprog" where
  "lock_state = wait_for (\<lambda>c. \<not> c_wlock c \<and> c_rlocks c = 0)
     (\<lambda>c. Ret () (c\<lparr>c_wlock := True\<rparr>))"

definition unlock_state :: "'w conn \<Rightarrow> 'w conn" where
  "unlock_state c = c\<lparr>c_wlock := False\<rparr>"

definition rlock_state :: "'w conn \<Rightarrow> (unit, 'w) cprog" where
  "rlock_state = wait_for (\<lambda>c. \<not> c_wlock c) (\<lambda>c. Ret () (c\<lparr>c_rlocks := c_rlocks c + 1\<rparr>))"

definition runlock_state :: "'w conn \<Rightarrow> 'w conn" where
  "runlock_state c = c\<lparr>c_rlocks := c_rlocks c - 1\<rparr>"

definition lock_handlers :: "'w conn \<Rightarrow> (unit, 'w) cprog" where
  "lock_handlers = wait_for (\<lambda>c. \<not> c_hlock c) (\<lambda>c. Ret () (c\<lparr>c_hlock := True\<rparr>))"

definition unlock_handlers :: "'w conn \<Rightarrow> 'w conn" where
  "unlock_handlers c = c\<lparr>c_hlock := False\<rparr>"

definition send_out :: "msgptr \<Rightarrow> 'w conn \<Rightarrow> (unit, 'w) cprog" where
  "send_out m = wait_for (\<lambda>c. can_send (c_outgoing c)) (\<lambda>c.
     if chan_closed (c_outgoing c) then Panic PSendClosed c
     else Ret () (c\<lparr>c_outgoing := chan_push m (c_outgoing c)\<rparr>))"

definition send_in :: "msgptr \<Rightarrow> 'w conn \<Rightarrow> (unit, 'w) cprog" where
  "send_in m = wait_for (\<lambda>c. can_send (c_incoming c)) (\<lambda>c.
     if chan_closed (c_incoming c) then Panic PSendClosed c
     else Ret () (c\<lparr>c_incoming := chan_push m (c_incoming c)\<rparr>))"

definition close_out :: "'w conn \<Rightarrow> (unit, 'w) cprog" where
  "close_out c = (if chan_closed (c_outgoing c) then Panic PCloseClosed c
     else Ret () (c\<lparr>c_outgoing := chan_close (c_outgoing c)\<rparr>))"

definition close_in :: "'w conn \<Rightarrow> (unit, 'w) cprog" where
  "close_in c = (if chan_closed (c_incoming c) then Panic PCloseClosed c
     else Ret () (c\<lparr>c_incoming := chan_close (c_incoming c)\<rparr>))"

definition close_shutdown :: "'w conn \<Rightarrow> (unit, 'w) cprog" where
  "close_shutdown c = (if c_shutdown c then Panic PCloseClosed c
     else Ret () (c\<lparr>c_shutdown := True\<rparr>))"

text \<open>\<open>time.Sleep\<close>: other goroutines run meanwhile.\<close>

definition sleep :: "'w conn \<Rightarrow> (unit, 'w) cprog" where
  "sleep = wait_for (\<lambda>c. True) (Ret ())"

text \<open>A call of a handler, and a call into a library.\<close>

definition invoke :: "('arg, 'r, 'w) go_method \<Rightarrow> 'arg \<Rightarrow> 'w conn \<Rightarrow> ('r, 'w) cprog" where
  "invoke m arg c = (case m arg (c_world c) of
       (Returns r, w) \<Rightarrow> Ret r (c\<lparr>c_world := w\<rparr>)
     | (Raises p, w) \<Rightarrow> Panic p (c\<lparr>c_world := w\<rparr>))"

definition extcall :: "('w \<Rightarrow> 'r \<times> 'w) \<Rightarrow> 'w conn \<Rightarrow> ('r, 'w) cprog" where
  "extcall f c = (case f (c_world c) of (r, w) \<Rightarrow> Ret r (c\<lparr>c_world := w\<rparr>))"

definition calling ::
  "((Subscription, 'w) methods \<Rightarrow> ('arg, 'r, 'w) go_method option) \<Rightarrow> 'arg \<Rightarrow> 'w env \<Rightarrow> handler \<Rightarrow>
    ('w conn \<Rightarrow> ('r, 'w) cprog) option" where
  "calling sel arg E h = map_option (\<lambda>m. invoke m arg) (sel (methods_of (impls E) h))"

definition handler_call ::
  "((Subscription, 'w) methods \<Rightarrow> ('arg, 'r, 'w) go_method option) \<Rightarrow> 'arg \<Rightarrow> 'w env \<Rightarrow> handler \<Rightarrow>
    ('w \<Rightarrow> 'r call \<times> 'w) option" where
  "handler_call sel arg E h = map_option (\<lambda>m. m arg) (sel (methods_of (impls E) h))"

subsection \<open>State and handlers\<close>

definition getState :: "'w conn \<Rightarrow> (ConnState, 'w) cprog" where
  "getState c = andthen (rlock_state c) (\<lambda>_ c. finally_do (Ret (c_state c) c) runlock_state)"

definition setState :: "ConnState \<Rightarrow> 'w conn \<Rightarrow> (unit, 'w) cprog" where
  "setState v c = andthen (lock_state c) (\<lambda>_ c.
     finally_do (Ret () (c\<lparr>c_state := v\<rparr>)) unlock_state)"

definition AddHandler :: "handler \<Rightarrow> 'w conn \<Rightarrow> (unit, 'w) cprog" where
  "AddHandler h c = andthen (lock_handlers c) (\<lambda>_ c.
     finally_do (Ret () (c\<lparr>c_Handlers := c_Handlers c @ [h]\<rparr>)) unlock_handlers)"

text \<open>
  The loop of \<open>RemoveHandler\<close>: \<open>pre\<close> are the handlers before the present one.  At the first
  match the code appends the value \<open>hs[i+1:]\<close>, one slice, to \<open>hs[:i]\<close>.  \<open>None\<close> is the panic of
  a comparison.
\<close>

fun remove_scan :: "handler list \<Rightarrow> handler list \<Rightarrow> handler \<Rightarrow> handler list option" where
  "remove_scan pre [] handler = Some pre"
| "remove_scan pre (h # hs) handler =
    (case handler_eq h handler of
       None \<Rightarrow> None
     | Some True \<Rightarrow> Some (pre @ [HSlice (length hs)])
     | Some False \<Rightarrow> remove_scan (pre @ [h]) hs handler)"

definition RemoveHandler :: "handler \<Rightarrow> 'w conn \<Rightarrow> (unit, 'w) cprog" where
  "RemoveHandler h c = andthen (lock_handlers c) (\<lambda>_ c.
     finally_do (case remove_scan [] (c_Handlers c) h of
         None \<Rightarrow> Panic PUncomparable c
       | Some hs \<Rightarrow> Ret () (c\<lparr>c_Handlers := hs\<rparr>)) unlock_handlers)"

definition lockHandlers :: "('w conn \<Rightarrow> ('a, 'w) cprog) \<Rightarrow> 'w conn \<Rightarrow> ('a, 'w) cprog" where
  "lockHandlers f c = andthen (lock_handlers c) (\<lambda>_ c. finally_do (f c) unlock_handlers)"

definition addSubscription :: "Subscription \<Rightarrow> 'w conn \<Rightarrow> 'w conn" where
  "addSubscription s c = c\<lparr>c_Subscriptions := map_store (c_Subscriptions c) (sub_ID s) s\<rparr>"

definition removeSubscription :: "string \<Rightarrow> 'w conn \<Rightarrow> 'w conn" where
  "removeSubscription i c = c\<lparr>c_Subscriptions := map_delete (c_Subscriptions c) i\<rparr>"

subsection \<open>Sending\<close>

definition SendData :: "msgptr \<Rightarrow> 'w conn \<Rightarrow> (unit, 'w) cprog" where
  "SendData message c = send_out message c"

definition SendError :: "'w env \<Rightarrow> goerr \<Rightarrow> 'w conn \<Rightarrow> (goerr option, 'w) cprog" where
  "SendError E err c = andthen (getState c) (\<lambda>st c.
     if st = connStateClosed then Ret (Some ErrConnectionClosed) c
     else case marshal_string (err_text err) of
         None \<Rightarrow> Ret (Some (JsonErr ''json'')) c
       | Some errJSON \<Rightarrow> andthen
           (send_out (Msg (zero_OperationMessage\<lparr>msg_Type := gqlTypeError,
              msg_Payload := Some errJSON\<rparr>)) c)
           (\<lambda>_ c. Ret None c))"

definition sendConnectionError :: "goerr \<Rightarrow> 'w conn \<Rightarrow> (goerr option, 'w) cprog" where
  "sendConnectionError err c = andthen (rlock_state c) (\<lambda>_ c. finally_do
     (if c_state c = connStateClosed then Ret (Some ErrConnectionClosed) c
      else case marshal_string (err_text err) of
          None \<Rightarrow> Ret (Some (JsonErr ''json'')) c
        | Some errJSON \<Rightarrow> andthen
            (send_out (Msg (zero_OperationMessage\<lparr>msg_Type := gqlTypeConnectionError,
               msg_Payload := Some errJSON\<rparr>)) c)
            (\<lambda>_ c. Ret None c))
     runlock_state)"

definition sendOperationErrors ::
  "'w env \<Rightarrow> string \<Rightarrow> goerr list \<Rightarrow> 'w conn \<Rightarrow> (goerr option, 'w) cprog" where
  "sendOperationErrors E i errs c = andthen (rlock_state c) (\<lambda>_ c. finally_do
     (if c_state c = connStateClosed then Ret (Some ErrConnectionClosed) c
      else case marshal_errors (other_errors E) errs of
          None \<Rightarrow> Ret (Some (JsonErr ''json'')) c
        | Some errJSON \<Rightarrow> andthen
            (send_out (Msg (zero_OperationMessage\<lparr>msg_ID := i, msg_Type := gqlTypeError,
               msg_Payload := Some errJSON\<rparr>)) c)
            (\<lambda>_ c. Ret None c))
     runlock_state)"

text \<open>\<open>Subscription.SendData\<close>, for a subscription of this connection.\<close>

definition Subscription_SendData ::
  "'w env \<Rightarrow> Subscription \<Rightarrow> GQLDataObject \<Rightarrow> 'w conn \<Rightarrow> (goerr option, 'w) cprog" where
  "Subscription_SendData E s d c = (case marshal_GQLDataObject (other_errors E) d of
       None \<Rightarrow> Ret (Some (JsonErr ''json'')) c
     | Some dataJson \<Rightarrow> andthen
         (SendData (Msg \<lparr>msg_ID = sub_ID s, msg_Type = gqlTypeData, msg_Payload = Some dataJson\<rparr>) c)
         (\<lambda>_ c. Ret None c))"

subsection \<open>Closing\<close>

definition close_body :: "'w env \<Rightarrow> 'w conn \<Rightarrow> (goerr option, 'w) cprog" where
  "close_body E c =
    (if c_state c = connStateClosed then Ret (Some ErrConnectionClosed) c
     else andthen (close_shutdown (c\<lparr>c_state := connStateClosed\<rparr>)) (\<lambda>_ c.
       andthen (each_handler (calling HandleWebsocketClose (0, '''') E)
           (do_reaction until_stopped_or_error) (c_Handlers c) c) (\<lambda>e c.
         case e of
           Returned err \<Rightarrow> Ret (Some err) c
         | _ \<Rightarrow> andthen (sleep c) (\<lambda>_ c.
             andthen (close_out c) (\<lambda>_ c.
             andthen (close_in c) (\<lambda>_ c.
             extcall (ws_Close E) c))))))"

definition close :: "'w env \<Rightarrow> 'w conn \<Rightarrow> (goerr option, 'w) cprog" where
  "close E c = andthen (lock_state c) (\<lambda>_ c. finally_do (close_body E c) unlock_state)"

definition pongHandler :: "'w env \<Rightarrow> string \<Rightarrow> 'w conn \<Rightarrow> (goerr option, 'w) cprog" where
  "pongHandler E message c =
    andthen (extcall (ws_SetReadDeadline E (pong_wait (c_config c))) c) (\<lambda>err c.
      case err of
        Some e \<Rightarrow> Ret (Some e) c
      | None \<Rightarrow> andthen (each_handler (calling HandleWebsocketPong message E)
            (do_reaction until_error) (c_Handlers c) c) (\<lambda>e c.
          case e of Returned err \<Rightarrow> Ret (Some err) c | _ \<Rightarrow> Ret None c))"

definition closeHandler :: "'w env \<Rightarrow> int \<Rightarrow> string \<Rightarrow> 'w conn \<Rightarrow> (goerr option, 'w) cprog" where
  "closeHandler E code txt c = close E c"

text \<open>
  \<open>Close\<close>: a nil \<open>WriteTimeout\<close> is dereferenced.
\<close>

definition Close :: "'w env \<Rightarrow> 'w conn \<Rightarrow> (goerr option, 'w) cprog" where
  "Close E c = andthen (getState c) (\<lambda>st c.
     if st = connStateClosed then Ret (Some ErrConnectionClosed) c
     else case WriteTimeout (c_config c) of
         None \<Rightarrow> Panic PNilDeref c
       | Some d \<Rightarrow> andthen (extcall (ws_WriteControl E CloseMessage d) c) (\<lambda>err c.
           case err of Some e \<Rightarrow> Ret (Some e) c | None \<Rightarrow> close E c))"

text \<open>
  \<open>Conn.recover\<close> for a panic with value \<open>r\<close> (without one it does nothing): every
  \<open>SystemRecoverHandler\<close> is told, then, unless the connection is closed, the processing
  goroutine is sent the end-of-file message.
\<close>

definition recover :: "'w env \<Rightarrow> RWType \<Rightarrow> panic \<Rightarrow> 'w conn \<Rightarrow> (unit, 'w) cprog" where
  "recover E t r c =
    andthen (each_handler (calling HandlePanic (t, r) E)
        (do_reaction until_propagation_stopped :: _ \<Rightarrow> _ \<Rightarrow> (panic, unit ctl, 'w conn) prog)
        (c_Handlers c) c) (\<lambda>_ c.
      andthen (getState c) (\<lambda>st c.
        if st = connStateClosed then Ret () c else send_in operationMessageEOF c))"

interpretation subscriptions:
  keyed_table_delete sub_ID "\<lambda>c. map_load (c_Subscriptions c)" addSubscription removeSubscription
  by unfold_locales
    (auto simp: map_load_def map_store_def map_delete_def addSubscription_def removeSubscription_def)

subsection \<open>Operations run alone\<close>

text \<open>No lock is held: no other goroutine is inside a critical section.\<close>

definition idle :: "'w conn \<Rightarrow> bool" where
  "idle c \<longleftrightarrow> \<not> c_wlock c \<and> c_rlocks c = 0 \<and> \<not> c_hlock c"

lemma idle_NewConn: "idle (snd (NewConn schema config n w))"
  by (simp add: idle_def NewConn_def)

lemma run_primitives [run_simps]:
  "run (lock_state c) = (if \<not> c_wlock c \<and> c_rlocks c = 0 then Done () (c\<lparr>c_wlock := True\<rparr>)
     else Stuck (\<lambda>c. \<not> c_wlock c \<and> c_rlocks c = 0) c)"
  "run (rlock_state c) = (if \<not> c_wlock c then Done () (c\<lparr>c_rlocks := c_rlocks c + 1\<rparr>)
     else Stuck (\<lambda>c. \<not> c_wlock c) c)"
  "run (lock_handlers c) = (if \<not> c_hlock c then Done () (c\<lparr>c_hlock := True\<rparr>)
     else Stuck (\<lambda>c. \<not> c_hlock c) c)"
  "run (send_out m c) = (if can_send (c_outgoing c)
     then if chan_closed (c_outgoing c) then Panicked PSendClosed c
       else Done () (c\<lparr>c_outgoing := chan_push m (c_outgoing c)\<rparr>)
     else Stuck (\<lambda>c. can_send (c_outgoing c)) c)"
  "run (send_in m c) = (if can_send (c_incoming c)
     then if chan_closed (c_incoming c) then Panicked PSendClosed c
       else Done () (c\<lparr>c_incoming := chan_push m (c_incoming c)\<rparr>)
     else Stuck (\<lambda>c. can_send (c_incoming c)) c)"
  "run (close_out c) = (if chan_closed (c_outgoing c) then Panicked PCloseClosed c
     else Done () (c\<lparr>c_outgoing := chan_close (c_outgoing c)\<rparr>))"
  "run (close_in c) = (if chan_closed (c_incoming c) then Panicked PCloseClosed c
     else Done () (c\<lparr>c_incoming := chan_close (c_incoming c)\<rparr>))"
  "run (close_shutdown c) = (if c_shutdown c then Panicked PCloseClosed c
     else Done () (c\<lparr>c_shutdown := True\<rparr>))"
  "run (sleep c) = Done () c"
  "run (extcall f c) = (case f (c_world c) of (r, w) \<Rightarrow> Done r (c\<lparr>c_world := w\<rparr>))"
  "run (invoke meth arg c) = (case meth arg (c_world c) of
       (Returns r, w) \<Rightarrow> Done r (c\<lparr>c_world := w\<rparr>)
     | (Raises p, w) \<Rightarrow> Panicked p (c\<lparr>c_world := w\<rparr>))"
  by (auto simp: lock_state_def rlock_state_def lock_handlers_def send_out_def send_in_def
      close_out_def close_in_def close_shutdown_def sleep_def extcall_def invoke_def wait_for_def
      split: prod.splits call.splits)

lemmas unlock_defs = unlock_state_def runlock_state_def unlock_handlers_def

lemma unchanged_locks [simp]:
  "\<not> c_wlock c \<Longrightarrow> c\<lparr>c_wlock := False\<rparr> = c"
  "\<not> c_hlock c \<Longrightarrow> c\<lparr>c_hlock := False\<rparr> = c"
  "c_rlocks c = 0 \<Longrightarrow> c\<lparr>c_rlocks := 0\<rparr> = c"
  by (cases c, simp)+

lemma run_getState [run_simps]:
  "\<not> c_wlock c \<Longrightarrow> run (getState c) = Done (c_state c) c"
  by (simp add: getState_def run_simps unlock_defs)

lemma run_setState [run_simps]:
  "idle c \<Longrightarrow> run (setState v c) = Done () (c\<lparr>c_state := v\<rparr>)"
  by (cases c) (simp add: setState_def run_simps unlock_defs idle_def)

text \<open>A loop over handlers in terms of its function on the outside state.\<close>

lemma each_handler_calling:
  "each_handler (calling sel arg E) (do_reaction react) hs c =
    (case loop_spec (handler_call sel arg E) react hs (c_world c) of
       (Inl p, w) \<Rightarrow> Panic p (c\<lparr>c_world := w\<rparr>)
     | (Inr e, w) \<Rightarrow> Ret e (c\<lparr>c_world := w\<rparr>))"
proof (induction hs arbitrary: c)
  case (Cons h hs)
  show ?case
  proof (cases "sel (methods_of (impls E) h)")
    case None
    then show ?thesis using Cons by (simp add: calling_def handler_call_def)
  next
    case (Some m)
    then show ?thesis
      using Cons
      by (auto simp: calling_def handler_call_def invoke_def do_reaction_def
          split: prod.splits call.splits sum.splits ctl.splits)
  qed
qed simp

text \<open>What \<open>close\<close> does when nothing interferes.\<close>

definition closed_by :: "'w env \<Rightarrow> 'w conn \<Rightarrow> (panic + goerr loop_end) \<times> 'w" where
  "closed_by E c = loop_spec (handler_call HandleWebsocketClose (0, '''') E)
     until_stopped_or_error (c_Handlers c) (c_world c)"

lemma run_close:
  assumes "idle c"
  shows "run (close E c) =
    (if c_state c = connStateClosed then Done (Some ErrConnectionClosed) c
     else if c_shutdown c then Panicked PCloseClosed (c\<lparr>c_state := connStateClosed\<rparr>)
     else case closed_by E c of
         (Inl p, w) \<Rightarrow> Panicked p (c\<lparr>c_state := connStateClosed, c_shutdown := True, c_world := w\<rparr>)
       | (Inr (Returned err), w) \<Rightarrow>
           Done (Some err) (c\<lparr>c_state := connStateClosed, c_shutdown := True, c_world := w\<rparr>)
       | (Inr _, w) \<Rightarrow>
           if chan_closed (c_outgoing c)
           then Panicked PCloseClosed (c\<lparr>c_state := connStateClosed, c_shutdown := True, c_world := w\<rparr>)
           else if chan_closed (c_incoming c)
           then Panicked PCloseClosed (c\<lparr>c_state := connStateClosed, c_shutdown := True,
             c_outgoing := chan_close (c_outgoing c), c_world := w\<rparr>)
           else case ws_Close E w of (r, w') \<Rightarrow>
             Done r (c\<lparr>c_state := connStateClosed, c_shutdown := True,
               c_outgoing := chan_close (c_outgoing c), c_incoming := chan_close (c_incoming c),
               c_world := w'\<rparr>))"
  using assms
  by (cases c)
    (auto simp: close_def close_body_def run_simps unlock_defs idle_def each_handler_calling
      closed_by_def split: prod.splits sum.splits loop_end.splits)

text \<open>An open connection in which nothing is going on.\<close>

definition open_conn :: "'w conn \<Rightarrow> bool" where
  "open_conn c \<longleftrightarrow> idle c \<and> c_state c \<noteq> connStateClosed \<and> \<not> c_shutdown c \<and>
     \<not> chan_closed (c_outgoing c) \<and> \<not> chan_closed (c_incoming c)"

lemma open_connD:
  assumes "open_conn c"
  shows "idle c" "c_state c \<noteq> connStateClosed" "\<not> c_shutdown c"
    "\<not> chan_closed (c_outgoing c)" "\<not> chan_closed (c_incoming c)" "\<not> c_wlock c"
    "c_rlocks c = 0" "\<not> c_hlock c"
  using assms by (auto simp: open_conn_def idle_def)

lemma open_conn_NewConn: "open_conn (snd (NewConn schema config n w))"
  by (simp add: open_conn_def idle_NewConn) (simp add: NewConn_def)

text \<open>The state after a close that ran to its end, and after one a handler cut short.\<close>

definition closed_conn :: "'w \<Rightarrow> 'w conn \<Rightarrow> 'w conn" where
  "closed_conn w c = c\<lparr>c_state := connStateClosed, c_shutdown := True,
     c_outgoing := chan_close (c_outgoing c), c_incoming := chan_close (c_incoming c),
     c_world := w\<rparr>"

definition half_closed_conn :: "'w \<Rightarrow> 'w conn \<Rightarrow> 'w conn" where
  "half_closed_conn w c = c\<lparr>c_state := connStateClosed, c_shutdown := True, c_world := w\<rparr>"

lemma run_close_open:
  assumes "open_conn c"
  shows "run (close E c) = (case closed_by E c of
       (Inl p, w) \<Rightarrow> Panicked p (half_closed_conn w c)
     | (Inr (Returned err), w) \<Rightarrow> Done (Some err) (half_closed_conn w c)
     | (Inr _, w) \<Rightarrow> (case ws_Close E w of (r, w') \<Rightarrow> Done r (closed_conn w' c)))"
  using open_connD [OF assms]
  by (auto simp: run_close closed_conn_def half_closed_conn_def
      split: prod.splits sum.splits loop_end.splits)

lemma idle_after_close:
  assumes "idle c"
  shows "idle (outcome_state (run (close E c))) \<and>
    c_state (outcome_state (run (close E c))) = connStateClosed"
  using assms
  by (auto simp: run_close idle_def split: prod.splits sum.splits loop_end.splits)

subsection \<open>A concrete outside world for examples\<close>

text \<open>The outside state is the list of what happened; every library call succeeds.\<close>

definition note_event :: "string \<Rightarrow> string list \<Rightarrow> goerr option \<times> string list" where
  "note_event e w = (None, w @ [e])"

definition demo_env :: "(nat \<Rightarrow> (Subscription, string list) methods) \<Rightarrow> string list env" where
  "demo_env D = \<lparr>ws_WriteJSON = (\<lambda>j. note_event ''json''), ws_WriteMessage = (\<lambda>f. note_event ''frame''),
     ws_WriteControl = (\<lambda>f d. note_event ''control''), ws_Close = note_event ''close'',
     ws_SetReadDeadline = (\<lambda>d. note_event ''read deadline''),
     ws_SetWriteDeadline = (\<lambda>d. note_event ''write deadline''),
     ws_SetReadLimit = (\<lambda>l w. ((), w)),
     gq_Parse = (\<lambda>q. if q = ''q'' then Inr example_document else Inl (OtherErr ''syntax'')),
     gq_IsValid = (\<lambda>s d. True), other_errors = (\<lambda>e. None), impls = D\<rparr>"

definition demo_config :: config_values where
  "demo_config = \<lparr>ReadLimit = Some 5120, PongWait = Some 60000000000,
     WriteTimeout = Some 15000000000\<rparr>"

definition demo_conn :: "handler list \<Rightarrow> string list conn" where
  "demo_conn hs = (snd (NewConn (Some 0) demo_config 0 []))\<lparr>c_Handlers := hs\<rparr>"

text \<open>
  Handlers 0 to 2 handle the close: 0 notes it, 1 fails, 2 stops the propagation.  Handlers 3
  to 5 handle the connection init: 3 notes it, 4 refuses with an error, 5 returns a
  \<open>HandlerError\<close> that only stops the propagation.  Handler 6 returns an error for a start, 8
  notes a panic, 9 notes the start and the stop of a subscription.
\<close>

definition demo_impls :: "nat \<Rightarrow> (Subscription, string list) methods" where
  "demo_impls n =
    (if n = 0 then no_methods\<lparr>HandleWebsocketClose := Some (\<lambda>a w. (Returns None, w @ [''bye'']))\<rparr>
     else if n = 1 then no_methods\<lparr>HandleWebsocketClose := Some (\<lambda>a w. (Returns (Some (ErrNew ''no'')), w))\<rparr>
     else if n = 2 then no_methods\<lparr>HandleWebsocketClose := Some (\<lambda>a w.
       (Returns (Some (HandlerErr (Some (StopPropagation new_HandlerError)))), w @ [''stop'']))\<rparr>
     else if n = 3 then no_methods\<lparr>HandleConnectionInit := Some (\<lambda>a w. (Returns None, w @ [''init'']))\<rparr>
     else if n = 4 then no_methods\<lparr>HandleConnectionInit := Some (\<lambda>a w.
       (Returns (Some (ErrNew ''denied'')), w))\<rparr>
     else if n = 5 then no_methods\<lparr>HandleConnectionInit := Some (\<lambda>a w.
       (Returns (Some (HandlerErr (Some (StopPropagation new_HandlerError)))), w))\<rparr>
     else if n = 6 then no_methods\<lparr>HandleConnectionStart := Some (\<lambda>a w.
       (Returns [ErrNew ''not allowed''], w @ [''start'']))\<rparr>
     else if n = 8 then no_methods\<lparr>HandlePanic := Some (\<lambda>a w. (Returns None, w @ [''panic'']))\<rparr>
     else if n = 9 then no_methods\<lparr>HandleSubscriptionStart := Some (\<lambda>a w. (Returns None, w @ [''sub''])),
       HandleSubscriptionStop := Some (\<lambda>a w. (Returns None, w @ [''unsub'']))\<rparr>
     else no_methods)"

lemmas demo_defs = demo_env_def demo_conn_def demo_impls_def demo_config_def note_event_def
  NewConn_def

lemma open_demo_conn: "open_conn (demo_conn hs)"
  using open_conn_NewConn [of "Some 0" demo_config 0 "[]"]
  by (simp add: demo_conn_def open_conn_def idle_def)

subsection \<open>Properties\<close>

text \<open>
  C14: closing an open connection whose handlers' \<open>HandleWebsocketClose\<close> loop ends without an
  error marks it closed, closes the three channels and then the socket, whose result is
  returned; nothing waiting in the channels and no subscription is lost, and no lock stays
  taken.
\<close>

theorem close_completes:
  assumes "open_conn c"
    and "closed_by E c = (Inr e, w)" and "\<not> cut_short e"
  shows "run (close E c) = Done (fst (ws_Close E w)) (closed_conn (snd (ws_Close E w)) c) \<and>
    c_state (closed_conn w c) = connStateClosed \<and> c_shutdown (closed_conn w c) \<and>
    chan_closed (c_outgoing (closed_conn w c)) \<and> chan_closed (c_incoming (closed_conn w c)) \<and>
    chan_buf (c_outgoing (closed_conn w c)) = chan_buf (c_outgoing c) \<and>
    c_Subscriptions (closed_conn w c) = c_Subscriptions c \<and> idle (closed_conn w c)"
  using assms open_connD [OF assms(1)]
  by (cases e)
    (auto simp: run_close_open closed_conn_def idle_def split: prod.splits)

theorem close_completes_witness:
  "run (close (demo_env demo_impls) (demo_conn [HObj 0, HObj 7, HObj 2, HObj 1])) =
   Done None (closed_conn [''bye'', ''stop'', ''close''] (demo_conn [HObj 0, HObj 7, HObj 2, HObj 1]))"
proof -
  let ?c = "demo_conn [HObj 0, HObj 7, HObj 2, HObj 1]"
  have cb: "closed_by (demo_env demo_impls) ?c = (Inr Broken, [''bye'', ''stop''])"
    by (simp add: closed_by_def handler_call_def demo_defs StopPropagation_def)
  show ?thesis
    using close_completes [OF open_demo_conn cb] by (simp add: demo_env_def note_event_def)
qed

text \<open>
  Once a close has been started, by whatever path it ended (complete, cut short by a
  handler's error, or by a panic), another close returns \<open>ErrConnectionClosed\<close> and changes
  nothing: handlers are not called again and no channel is closed twice.
\<close>

lemma close_again_is_refused:
  assumes "idle c"
  shows "run (close E (outcome_state (run (close E c)))) =
    Done (Some ErrConnectionClosed) (outcome_state (run (close E c)))"
  using idle_after_close [OF assms, of E] by (simp add: run_close)

text \<open>
  C39: when a \<open>HandleWebsocketClose\<close> returns an error that is no \<open>HandlerError\<close>, \<open>close\<close>
  returns it with the connection marked closed but the message channels still open and the
  socket not closed; from then on both \<open>close\<close> and the exported \<open>Close\<close> refuse with
  \<open>ErrConnectionClosed\<close>, so neither can close the socket any more.
\<close>

theorem close_error_leaves_socket_open:
  assumes "open_conn c" and "closed_by E c = (Inr (Returned err), w)"
  shows "run (close E c) = Done (Some err) (half_closed_conn w c) \<and>
    \<not> chan_closed (c_outgoing (half_closed_conn w c)) \<and>
    \<not> chan_closed (c_incoming (half_closed_conn w c)) \<and>
    run (close E (half_closed_conn w c)) = Done (Some ErrConnectionClosed) (half_closed_conn w c) \<and>
    run (Close E (half_closed_conn w c)) = Done (Some ErrConnectionClosed) (half_closed_conn w c)"
proof -
  have h: "idle (half_closed_conn w c)" "c_state (half_closed_conn w c) = connStateClosed"
    using open_connD [OF assms(1)] by (simp_all add: half_closed_conn_def idle_def)
  show ?thesis
    using assms h open_connD [OF assms(1)]
    by (simp add: run_close_open run_close Close_def run_simps idle_def)
      (simp add: half_closed_conn_def)
qed

theorem close_error_leaves_socket_open_witness:
  "run (close (demo_env demo_impls) (demo_conn [HObj 0, HObj 1])) =
   Done (Some (ErrNew ''no'')) (half_closed_conn [''bye''] (demo_conn [HObj 0, HObj 1]))"
proof -
  have cb: "closed_by (demo_env demo_impls) (demo_conn [HObj 0, HObj 1]) =
      (Inr (Returned (ErrNew ''no'')), [''bye''])"
    by (simp add: closed_by_def handler_call_def demo_defs)
  show ?thesis using close_error_leaves_socket_open [OF open_demo_conn cb] by blast
qed

text \<open>
  After a completed close \<open>SendError\<close> reports \<open>ErrConnectionClosed\<close>, while \<open>SendData\<close>,
  which does not look at the state, panics on the closed channel.
\<close>

lemma sending_after_close:
  assumes "idle c" and "c_state c = connStateClosed" and "chan_closed (c_outgoing c)"
  shows "run (SendError E err c) = Done (Some ErrConnectionClosed) c \<and>
    run (SendData m c) = Panicked PSendClosed c"
  using assms by (simp add: SendError_def SendData_def run_simps idle_def can_send_def)

lemma sending_after_close_witness:
  "run (SendData NilMsg (closed_conn [] (demo_conn []))) = Panicked PSendClosed (closed_conn [] (demo_conn []))"
proof -
  have "idle (closed_conn [] (demo_conn []))"
    using open_connD(1) [OF open_demo_conn, of "[]"] by (simp add: closed_conn_def idle_def)
  then show ?thesis
    using sending_after_close [of "closed_conn [] (demo_conn [])"] by (simp add: closed_conn_def)
qed

text \<open>
  An error sent on an open connection is one message of type \<open>error\<close> that carries the
  error's text, appended after everything already queued; when the queue is full the
  caller blocks until a message is taken.
\<close>

lemma SendError_queues_the_text:
  assumes "open_conn c"
  shows "run (SendError E err c) =
    (if length (chan_buf (c_outgoing c)) < chan_cap (c_outgoing c)
     then Done None (c\<lparr>c_outgoing := chan_push (Msg \<lparr>msg_ID = '''', msg_Type = ''error'',
        msg_Payload = Some (JStr (json_text (err_text err)))\<rparr>) (c_outgoing c)\<rparr>)
     else Stuck (\<lambda>c. can_send (c_outgoing c)) c)"
  using open_connD [OF assms]
  by (simp add: SendError_def run_simps marshal_string_def zero_OperationMessage_def
      gqlTypeError_def can_send_def)

lemma SendError_queues_the_text_witness:
  "run (SendError (demo_env demo_impls) ErrInvalidTopic (demo_conn [])) =
   Done None ((demo_conn [])\<lparr>c_outgoing := chan_push (Msg \<lparr>msg_ID = '''', msg_Type = ''error'',
        msg_Payload = Some (JStr ''invalid topic'')\<rparr>) (make_chan 10)\<rparr>)"
  using SendError_queues_the_text [OF open_demo_conn, of "demo_env demo_impls" ErrInvalidTopic "[]"]
  by (simp add: demo_conn_def NewConn_def ErrInvalidTopic_def)

lemma remove_scan_found:
  "\<forall>x \<in> set xs. handler_eq x h = Some False \<Longrightarrow> handler_eq y h = Some True \<Longrightarrow>
   remove_scan pre (xs @ y # ys) h = Some (pre @ xs @ [HSlice (length ys)])"
  by (induction xs arbitrary: pre) auto

lemma remove_scan_absent:
  "\<forall>x \<in> set xs. handler_eq x h = Some False \<Longrightarrow> remove_scan pre xs h = Some (pre @ xs)"
  by (induction xs arbitrary: pre) auto

lemma handler_eq_HObj: "handler_eq x (HObj n) = Some (x = HObj n)"
  by (cases x) auto

text \<open>
  C38: \<open>RemoveHandler\<close> of a registered handler also unregisters every handler after it: in
  their place stands one value that implements no handler interface; the loop that
  announces the close of the connection, for example, then calls exactly the handlers that
  were registered before the removed one.
\<close>

theorem RemoveHandler_drops_later_handlers:
  assumes "idle c" and "c_Handlers c = xs @ HObj n # ys" and "HObj n \<notin> set xs"
  shows "run (RemoveHandler (HObj n) c) = Done () (c\<lparr>c_Handlers := xs @ [HSlice (length ys)]\<rparr>) \<and>
    methods_of (impls E) (HSlice (length ys)) = no_methods \<and>
    loop_spec (handler_call HandleWebsocketClose arg E) react (xs @ [HSlice (length ys)]) w =
    loop_spec (handler_call HandleWebsocketClose arg E) react xs w"
proof -
  have "remove_scan [] (c_Handlers c) (HObj n) = Some (xs @ [HSlice (length ys)])"
    using assms(2,3) remove_scan_found [of xs "HObj n" "HObj n" "[]" ys]
    by (auto simp: handler_eq_HObj)
  then have "run (RemoveHandler (HObj n) c) = Done () (c\<lparr>c_Handlers := xs @ [HSlice (length ys)]\<rparr>)"
    using assms(1) by (cases c) (simp add: RemoveHandler_def run_simps unlock_defs idle_def)
  moreover have "loop_spec (handler_call HandleWebsocketClose arg E) react (xs @ [HSlice (length ys)]) w =
    loop_spec (handler_call HandleWebsocketClose arg E) react xs w"
    by (auto simp: loop_spec_append handler_call_def split: prod.splits sum.splits loop_end.splits)
  ultimately show ?thesis by simp
qed

theorem RemoveHandler_drops_later_handlers_witness:
  "run (RemoveHandler (HObj 5) (demo_conn [HObj 4, HObj 5, HObj 0])) =
   Done () ((demo_conn [HObj 4, HObj 5, HObj 0])\<lparr>c_Handlers := [HObj 4, HSlice 1]\<rparr>)"
proof -
  have "c_Handlers (demo_conn [HObj 4, HObj 5, HObj 0]) = [HObj 4] @ HObj 5 # [HObj 0]"
    by (simp add: demo_conn_def)
  from RemoveHandler_drops_later_handlers [OF open_connD(1) [OF open_demo_conn] this,
      of "demo_env demo_impls" "(0, [])" ignoring_errors "[]"]
  show ?thesis by simp
qed

end
