(* ===== verification/Processing.thy ===== *)
theory Processing
  imports Connection
begin

text \<open>
  What the two goroutines of a connection do (\<open>connection.go\<close>): \<open>readPump\<close> reads messages from
  the websocket and queues them, \<open>processMessages\<close> takes queued messages, interprets them and
  writes the outgoing ones.  Each loop is given by its body; how bodies of the two goroutines
  interleave is in theory \<open>Interleaving\<close>.
\<close>

subsection \<open>Starting and stopping a subscription\<close>

text \<open>
  The loop over the \<open>ConnectionStartHandler\<close>s; \<open>errs\<close> is the slice the code means to collect
  their errors in.
\<close>

fun connection_start_errors ::
  "'w env \<Rightarrow> GQLStart \<Rightarrow> handler list \<Rightarrow> goerr list \<Rightarrow> 'w conn \<Rightarrow> (goerr list, 'w) cprog" where
  "connection_start_errors E start [] errs c = Ret errs c"
| "connection_start_errors E start (h # hs) errs c =
    (case calling HandleConnectionStart start E h of
       None \<Rightarrow> connection_start_errors E start hs errs c
     | Some m \<Rightarrow> andthen (m c) (\<lambda>errsIn c.
         connection_start_errors E start hs
           (if length errs > 0 then errs @ errsIn else errs) c))"

definition new_subscription :: "GQLStart \<Rightarrow> 'w conn \<Rightarrow> Subscription" where
  "new_subscription start c = \<lparr>sub_ID = start_ID start, sub_Query = obj_Query (start_Payload start),
     sub_Variables = obj_Variables (start_Payload start),
     sub_OperationName = obj_OperationName (start_Payload start), sub_Document = None,
     sub_Fields = [], sub_Schema = c_Schema c, sub_Connection = Some (c_id c)\<rparr>"

definition gqlStart :: "'w env \<Rightarrow> GQLStart \<Rightarrow> 'w conn \<Rightarrow> (unit, 'w) cprog" where
  "gqlStart E start c = andthen (connection_start_errors E start (c_Handlers c) [] c) (\<lambda>errs c.
    if length errs > 0 then
      andthen (sendOperationErrors E (start_ID start) errs c) (\<lambda>err c. Ret () c)
    else let subscription = new_subscription start c in
      if length (ValidateSubscription subscription) > 0 then Ret () c
      else case gq_Parse E (sub_Query subscription) of
          Inl err \<Rightarrow> Ret () c
        | Inr document \<Rightarrow>
            if \<not> gq_IsValid E (c_Schema c) document then Ret () c
            else let subscription = subscription\<lparr>sub_Document := Some document,
                       sub_Fields := SubscriptionFieldNamesFromDocument document\<rparr>;
                     c = addSubscription subscription c
              in andthen (each_handler (calling HandleSubscriptionStart subscription E)
                   (do_reaction until_propagation_stopped :: _ \<Rightarrow> _ \<Rightarrow> (panic, unit ctl, 'w conn) prog)
                   (c_Handlers c) c) (\<lambda>_ c. Ret () c))"

definition gqlStop :: "'w env \<Rightarrow> GQLStop \<Rightarrow> 'w conn \<Rightarrow> (unit, 'w) cprog" where
  "gqlStop E stop c = andthen (each_handler (calling HandleConnectionStop stop E)
      (do_reaction ignoring_errors) (c_Handlers c) c) (\<lambda>_ c.
    case map_load (c_Subscriptions c) (stop_ID stop) of
      None \<Rightarrow> Ret () c
    | Some subscription \<Rightarrow> andthen (each_handler (calling HandleSubscriptionStop subscription E)
        (do_reaction until_propagation_stopped :: _ \<Rightarrow> _ \<Rightarrow> (panic, unit ctl, 'w conn) prog)
        (c_Handlers c) c) (\<lambda>_ c. Ret () c))"

subsection \<open>Interpreting a message\<close>

text \<open>
  The body of the loop over the \<open>ConnectionInitHandler\<close>s.  The propagation flag is looked at
  first, so a handler error with that flag leaves the loop without an error.
\<close>

definition init_reaction :: "goerr option \<Rightarrow> 'w conn \<Rightarrow> (goerr ctl, 'w) cprog" where
  "init_reaction err c = (case err of
       None \<Rightarrow> Ret Next c
     | Some (HandlerErr None) \<Rightarrow> Panic PNilDeref c
     | Some (HandlerErr (Some hErr)) \<Rightarrow>
         if propagationStopped hErr then Ret Break c
         else if defaultPrevented hErr then Ret Next c
         else Ret (Return (HandlerErr (Some hErr))) c
     | Some e \<Rightarrow> andthen (sendConnectionError e c) (\<lambda>_ c. Ret (Return e) c))"

definition process_init :: "'w env \<Rightarrow> OperationMessage \<Rightarrow> 'w conn \<Rightarrow> (unit, 'w) cprog" where
  "process_init E m c = andthen (lockHandlers (\<lambda>c.
      each_handler (calling HandleConnectionInit \<lparr>init_Payload = msg_Payload m\<rparr> E) init_reaction
        (c_Handlers c) c) c) (\<lambda>e c.
    case e of
      Returned err \<Rightarrow> send_in operationMessageEOF c
    | _ \<Rightarrow> andthen (setState connStateEstablished c) (\<lambda>_ c.
        send_out (Msg gqlConnectionAck_message) c))"

definition process_terminate :: "'w env \<Rightarrow> 'w conn \<Rightarrow> (unit, 'w) cprog" where
  "process_terminate E c =
    andthen (each_handler (calling HandleConnectionTerminate GQLConnectionTerminate E)
      (do_reaction until_propagation_stopped :: _ \<Rightarrow> _ \<Rightarrow> (panic, unit ctl, 'w conn) prog)
      (c_Handlers c) c) (\<lambda>_ c. send_in operationMessageEOF c)"

definition process_start :: "'w env \<Rightarrow> OperationMessage \<Rightarrow> 'w conn \<Rightarrow> (unit, 'w) cprog" where
  "process_start E m c = andthen (getState c) (\<lambda>st c.
    if st \<noteq> connStateEstablished then Panic (PErr ErrConnectionNotFullyEstablished) c
    else case decode_GQLObject (msg_Payload m) of
        Inl err \<Rightarrow> andthen (sendOperationErrors E (msg_ID m) [err] c) (\<lambda>_ c. Ret () c)
      | Inr payload \<Rightarrow> gqlStart E \<lparr>start_ID = msg_ID m, start_Payload = payload\<rparr> c)"

definition process_stop :: "'w env \<Rightarrow> OperationMessage \<Rightarrow> 'w conn \<Rightarrow> (unit, 'w) cprog" where
  "process_stop E m c =
    (if msg_Payload m \<noteq> None then
       (case decode_GQLStop (msg_Payload m) of
          Inl err \<Rightarrow> Panic (PErr err) c
        | Inr stop \<Rightarrow> gqlStop E stop c)
     else andthen (close E c) (\<lambda>_ c. Ret () c))"

text \<open>A message pointer dereferenced: nil panics, the end-of-file message has no type.\<close>

fun deref_msg :: "msgptr \<Rightarrow> OperationMessage option" where
  "deref_msg NilMsg = None"
| "deref_msg operationMessageEOF = Some zero_OperationMessage"
| "deref_msg (Msg m) = Some m"

definition processIncomeMessage :: "'w env \<Rightarrow> msgptr \<Rightarrow> 'w conn \<Rightarrow> (unit, 'w) cprog" where
  "processIncomeMessage E operationMessage c = (case deref_msg operationMessage of
       None \<Rightarrow> Panic PNilDeref c
     | Some m \<Rightarrow>
         if msg_Type m = gqlTypeConnectionInit then process_init E m c
         else if msg_Type m = gqlTypeConnectionTerminate then process_terminate E c
         else if msg_Type m = gqlTypeStart then process_start E m c
         else if msg_Type m = gqlTypeStop then process_stop E m c
         else Ret () c)"

text \<open>\<open>WriteJSON\<close> of a nil pointer writes null.\<close>

definition encode_msgptr :: "msgptr \<Rightarrow> json" where
  "encode_msgptr p = (case deref_msg p of None \<Rightarrow> JNull | Some m \<Rightarrow> encode_OperationMessage m)"

definition processOutgoingMessage :: "'w env \<Rightarrow> msgptr \<Rightarrow> 'w conn \<Rightarrow> (goerr option, 'w) cprog" where
  "processOutgoingMessage E operationMessage c = (case WriteTimeout (c_config c) of
       None \<Rightarrow> Panic PNilDeref c
     | Some d \<Rightarrow> andthen (extcall (ws_SetWriteDeadline E d) c) (\<lambda>_ c.
         if operationMessage = operationMessageEOF
         then andthen (extcall (ws_WriteMessage E CloseMessage) c) (\<lambda>_ c. Ret None c)
         else extcall (ws_WriteJSON E (encode_msgptr operationMessage)) c))"

subsection \<open>\<open>processMessages\<close>\<close>

text \<open>The cases of the \<open>select\<close>, and when each can be taken.\<close>

datatype select_case = SelShutdown | SelIncoming | SelOutgoing | SelPing

fun select_ready :: "select_case \<Rightarrow> 'w conn \<Rightarrow> bool" where
  "select_ready SelShutdown c = c_shutdown c"
| "select_ready SelIncoming c = can_recv (c_incoming c)"
| "select_ready SelOutgoing c = can_recv (c_outgoing c)"
| "select_ready SelPing c = True"

definition send_ping :: "'w env \<Rightarrow> 'w conn \<Rightarrow> (bool, 'w) cprog" where
  "send_ping E c = (case WriteTimeout (c_config c) of
       None \<Rightarrow> Panic PNilDeref c
     | Some d \<Rightarrow> andthen (extcall (ws_SetWriteDeadline E d) c) (\<lambda>_ c.
         andthen (extcall (ws_WriteMessage E PingMessage) c) (\<lambda>err c.
           case err of
             None \<Rightarrow> Ret True c
           | Some e \<Rightarrow> andthen (extcall (ws_WriteMessage E CloseMessage) c) (\<lambda>_ c. Ret False c))))"

text \<open>One turn of the loop: \<open>True\<close> if the loop goes on, \<open>False\<close> if the function returns.\<close>

definition select_body :: "'w env \<Rightarrow> select_case \<Rightarrow> 'w conn \<Rightarrow> (bool, 'w) cprog" where
  "select_body E sel c = (case sel of
       SelShutdown \<Rightarrow> Ret False c
     | SelIncoming \<Rightarrow> (case chan_recv NilMsg (c_incoming c) of (operationMessage, ch) \<Rightarrow>
         let c = c\<lparr>c_incoming := ch\<rparr> in
         if operationMessage = operationMessageEOF then Ret False c
         else andthen (processIncomeMessage E operationMessage c) (\<lambda>_ c. Ret True c))
     | SelOutgoing \<Rightarrow> (case chan_recv NilMsg (c_outgoing c) of (operationMessage, ch) \<Rightarrow>
         andthen (processOutgoingMessage E operationMessage (c\<lparr>c_outgoing := ch\<rparr>))
           (\<lambda>err c. Ret True c))
     | SelPing \<Rightarrow> send_ping E c)"

definition processMessages_body :: "'w env \<Rightarrow> select_case \<Rightarrow> 'w conn \<Rightarrow> (bool, 'w) cprog" where
  "processMessages_body E sel = wait_for (select_ready sel) (select_body E sel)"

text \<open>Before the loop: the ticker.  Only \<open>recover\<close> is deferred at that point.\<close>

definition processMessages_start :: "'w env \<Rightarrow> 'w conn \<Rightarrow> (bool, 'w) cprog" where
  "processMessages_start E c =
    (if ticker_ok (ping_interval (pong_wait (c_config c))) then Ret True c
     else andthen (recover E Write PTicker c) (\<lambda>_ c. Ret False c))"

text \<open>
  The deferred close of both goroutines.  \<open>po\<close> is the panic that is unwinding, if any; a panic
  of the close takes its place.
\<close>

definition deferred_close :: "'w env \<Rightarrow> panic option \<Rightarrow> 'w conn \<Rightarrow> (panic option, 'w) cprog" where
  "deferred_close E po c =
    catch_panic (andthen (close E c) (\<lambda>_ c. Ret po c)) (\<lambda>p c. Ret (Some p) c)"

text \<open>Leaving \<open>processMessages\<close>: close, stop the ticker, recover.\<close>

definition processMessages_exit :: "'w env \<Rightarrow> panic option \<Rightarrow> 'w conn \<Rightarrow> (unit, 'w) cprog" where
  "processMessages_exit E po c = andthen (deferred_close E po c) (\<lambda>po c.
     case po of None \<Rightarrow> Ret () c | Some p \<Rightarrow> recover E Write p c)"

subsection \<open>\<open>readPump\<close>\<close>

text \<open>
  What \<open>ReadJSON\<close> meets: pong frames, for each of which it calls the pong handler and returns
  its error if there is one, and then a message, a close frame, or a failure, such as a frame
  above the read limit.  For a close frame it calls the close handler and returns its error, or
  else a \<open>CloseError\<close>.  Every frame is waited for, so others may run before each of them.
\<close>

datatype read_end =
    Frame json
  | PeerClose int string
  | ReadFails goerr

fun ReadJSON ::
  "'w env \<Rightarrow> string list \<Rightarrow> read_end \<Rightarrow> 'w conn \<Rightarrow> (goerr + OperationMessage option, 'w) cprog" where
  "ReadJSON E (p # pongs) r c = wait_for (\<lambda>_. True) (\<lambda>c. andthen (pongHandler E p c) (\<lambda>err c.
     case err of Some e \<Rightarrow> Ret (Inl e) c | None \<Rightarrow> ReadJSON E pongs r c)) c"
| "ReadJSON E [] (Frame j) c = wait_for (\<lambda>_. True) (Ret (decode_OperationMessage j)) c"
| "ReadJSON E [] (PeerClose code txt) c = wait_for (\<lambda>_. True) (\<lambda>c. andthen (closeHandler E code txt c) (\<lambda>err c.
     Ret (Inl (case err of None \<Rightarrow> WsCloseErr txt | Some e \<Rightarrow> e)) c)) c"
| "ReadJSON E [] (ReadFails e) c = wait_for (\<lambda>_. True) (Ret (Inl e)) c"

definition readPump_start :: "'w env \<Rightarrow> 'w conn \<Rightarrow> (bool, 'w) cprog" where
  "readPump_start E c = andthen (setState connStateInitializing c) (\<lambda>_ c.
     case ReadLimit (c_config c) of
       None \<Rightarrow> Ret True c
     | Some l \<Rightarrow> andthen (extcall (ws_SetReadLimit E l) c) (\<lambda>_ c. Ret True c))"

text \<open>The error switch, and the logging of the message, which dereferences it.\<close>

definition queue_read ::
  "goerr + OperationMessage option \<Rightarrow> 'w conn \<Rightarrow> (bool, 'w) cprog" where
  "queue_read r c = (case r of
       Inl (WsCloseErr s) \<Rightarrow> Ret False c
     | Inl (NetOpErr s) \<Rightarrow> Ret False c
     | Inl (NetErr s) \<Rightarrow> andthen (send_in operationMessageEOF c) (\<lambda>_ c. Ret False c)
     | Inl e \<Rightarrow> andthen (send_in operationMessageEOF c) (\<lambda>_ c. Ret False c)
     | Inr None \<Rightarrow> Panic PNilDeref c
     | Inr (Some m) \<Rightarrow> andthen (send_in (Msg m) c) (\<lambda>_ c. Ret True c))"

text \<open>One turn of the loop.\<close>

definition readPump_body ::
  "'w env \<Rightarrow> string list \<Rightarrow> read_end \<Rightarrow> 'w conn \<Rightarrow> (bool, 'w) cprog" where
  "readPump_body E pongs r c = andthen (getState c) (\<lambda>st c.
     if st = connStateClosed then Ret False c
     else andthen (ReadJSON E pongs r c) queue_read)"

text \<open>Leaving \<open>readPump\<close>: a panic that is still unwinding ends the program.\<close>

definition readPump_exit :: "'w env \<Rightarrow> panic option \<Rightarrow> 'w conn \<Rightarrow> (unit, 'w) cprog" where
  "readPump_exit E po c = andthen (deferred_close E po c) (\<lambda>po c.
     case po of None \<Rightarrow> Ret () c | Some p \<Rightarrow> Panic p c)"

subsection \<open>Messages run alone\<close>

lemma run_each_handler_calling [run_simps]:
  "run (each_handler (calling sel arg E) (do_reaction react) hs c) =
    (case loop_spec (handler_call sel arg E) react hs (c_world c) of
       (Inl p, w) \<Rightarrow> Panicked p (c\<lparr>c_world := w\<rparr>)
     | (Inr e, w) \<Rightarrow> Done e (c\<lparr>c_world := w\<rparr>))"
  by (simp add: each_handler_calling split: prod.splits sum.splits)

text \<open>What the \<open>ConnectionInitHandler\<close>s decide, as a function of the outside state.\<close>

fun init_ctl :: "goerr reaction" where
  "init_ctl None = Inr Next"
| "init_ctl (Some (HandlerErr None)) = Inl PNilDeref"
| "init_ctl (Some (HandlerErr (Some hErr))) =
     (if propagationStopped hErr then Inr Break
      else if defaultPrevented hErr then Inr Next
      else Inr (Return (HandlerErr (Some hErr))))"
| "init_ctl (Some e) = Inr (Return e)"

definition init_verdict ::
  "'w env \<Rightarrow> OperationMessage \<Rightarrow> 'w conn \<Rightarrow> (panic + goerr loop_end) \<times> 'w" where
  "init_verdict E m c = loop_spec (handler_call HandleConnectionInit \<lparr>init_Payload = msg_Payload m\<rparr> E)
     init_ctl (c_Handlers c) (c_world c)"

fun is_handler_err :: "goerr \<Rightarrow> bool" where
  "is_handler_err (HandlerErr h) = True"
| "is_handler_err e = False"

text \<open>The reaction tells the client about an error unless it is a \<open>HandlerError\<close>.\<close>

definition init_reply :: "goerr ctl \<Rightarrow> 'w conn \<Rightarrow> (panic, unit, 'w conn) outcome" where
  "init_reply ctl c = (case ctl of
       Return e \<Rightarrow> if is_handler_err e then Done () c
         else bind_outcome (run (sendConnectionError e c)) (\<lambda>_ c. Done () c)
     | _ \<Rightarrow> Done () c)"

lemma run_init_reaction:
  "run (init_reaction err c) = (case init_ctl err of
       Inl p \<Rightarrow> Panicked p c
     | Inr ctl \<Rightarrow> bind_outcome (init_reply ctl c) (\<lambda>_ c. Done ctl c))"
proof (cases err rule: init_ctl.cases)
  case (3 hErr)
  then show ?thesis by (simp add: init_reaction_def init_reply_def)
qed (auto simp: init_reaction_def init_reply_def run_simps bind_outcome_def split: outcome.splits)

lemma run_init_loop:
  "run (each_handler (calling HandleConnectionInit arg E) init_reaction hs c) =
    (case loop_spec (handler_call HandleConnectionInit arg E) init_ctl hs (c_world c) of
       (Inl p, w) \<Rightarrow> Panicked p (c\<lparr>c_world := w\<rparr>)
     | (Inr e, w) \<Rightarrow> bind_outcome (init_reply (case e of Returned err \<Rightarrow> Return err | _ \<Rightarrow> Next)
         (c\<lparr>c_world := w\<rparr>)) (\<lambda>_ c. Done e c))"
proof (induction hs arbitrary: c)
  case (Cons h hs)
  show ?case
  proof (cases "HandleConnectionInit (methods_of (impls E) h)")
    case None
    then show ?thesis using Cons by (simp add: calling_def handler_call_def)
  next
    case (Some m)
    obtain r w where m: "m arg (c_world c) = (r, w)" by (cases "m arg (c_world c)")
    show ?thesis
    proof (cases r)
      case (Raises p)
      with Some m show ?thesis by (simp add: calling_def handler_call_def run_simps)
    next
      case (Returns err)
      then show ?thesis
        using Some m Cons [of "c\<lparr>c_world := w\<rparr>"]
        by (cases "init_ctl err")
          (auto simp: calling_def handler_call_def run_simps run_init_reaction init_reply_def
            bind_outcome_def split: ctl.splits outcome.splits prod.splits sum.splits)
    qed
  qed
qed (simp add: init_reply_def)

lemma run_sendConnectionError:
  assumes "\<not> c_wlock c" and "c_rlocks c = 0" and "c_state c \<noteq> connStateClosed"
    and "\<not> chan_closed (c_outgoing c)" and "length (chan_buf (c_outgoing c)) < chan_cap (c_outgoing c)"
  shows "run (sendConnectionError e c) = Done None
    (c\<lparr>c_outgoing := chan_push (Msg \<lparr>msg_ID = '''', msg_Type = ''connection_error'',
        msg_Payload = Some (JStr (json_text (err_text e)))\<rparr>) (c_outgoing c)\<rparr>)"
  using assms
  by (cases c) (simp add: sendConnectionError_def run_simps unlock_defs can_send_def marshal_string_def
      zero_OperationMessage_def gqlTypeConnectionError_def)

text \<open>Room for one more message.\<close>

definition has_room :: "'a chan \<Rightarrow> bool" where
  "has_room ch \<longleftrightarrow> length (chan_buf ch) < chan_cap ch"

lemma has_roomD [simp]: "has_room ch \<Longrightarrow> can_send ch"
  by (simp add: has_room_def can_send_def)

definition is_init :: "OperationMessage \<Rightarrow> bool" where
  "is_init m \<longleftrightarrow> msg_Type m = ''connection_init''"

lemma processIncomeMessage_cases:
  "msg_Type m = ''connection_init'' \<Longrightarrow> processIncomeMessage E (Msg m) c = process_init E m c"
  "msg_Type m = ''connection_terminate'' \<Longrightarrow> processIncomeMessage E (Msg m) c = process_terminate E c"
  "msg_Type m = ''start'' \<Longrightarrow> processIncomeMessage E (Msg m) c = process_start E m c"
  "msg_Type m = ''stop'' \<Longrightarrow> processIncomeMessage E (Msg m) c = process_stop E m c"
  by (simp_all add: processIncomeMessage_def gql_type_defs)

lemma processIncomeMessage_other:
  "msg_Type m \<notin> {''connection_init'', ''connection_terminate'', ''start'', ''stop''} \<Longrightarrow>
   processIncomeMessage E (Msg m) c = Ret () c"
  by (simp add: processIncomeMessage_def gql_type_defs)

subsection \<open>Starting and stopping as functions of the outside state\<close>

text \<open>The start handlers are called in turn; only a panic of one of them counts.\<close>

fun start_spec ::
  "(handler \<Rightarrow> ('w \<Rightarrow> goerr list call \<times> 'w) option) \<Rightarrow> handler list \<Rightarrow> 'w \<Rightarrow> panic option \<times> 'w" where
  "start_spec call [] w = (None, w)"
| "start_spec call (h # hs) w = (case call h of
       None \<Rightarrow> start_spec call hs w
     | Some m \<Rightarrow> (case m w of
           (Raises p, w') \<Rightarrow> (Some p, w')
         | (Returns errs, w') \<Rightarrow> start_spec call hs w'))"

lemma connection_start_errors_empty:
  "connection_start_errors E start hs [] c =
    (case start_spec (handler_call HandleConnectionStart start E) hs (c_world c) of
       (Some p, w) \<Rightarrow> Panic p (c\<lparr>c_world := w\<rparr>)
     | (None, w) \<Rightarrow> Ret [] (c\<lparr>c_world := w\<rparr>))"
proof (induction hs arbitrary: c)
  case (Cons h hs)
  then show ?case
    by (auto simp: calling_def handler_call_def invoke_def
        split: option.splits prod.splits call.splits)
qed simp

text \<open>
  The subscription a start message asks for, if it passes validation, parsing and the check
  against the schema.
\<close>

definition accepted_subscription :: "'w env \<Rightarrow> GQLStart \<Rightarrow> 'w conn \<Rightarrow> Subscription option" where
  "accepted_subscription E start c =
    (if start_ID start = '''' \<or> obj_Query (start_Payload start) = '''' then None
     else case gq_Parse E (obj_Query (start_Payload start)) of
         Inl err \<Rightarrow> None
       | Inr document \<Rightarrow> if gq_IsValid E (c_Schema c) document
           then Some ((new_subscription start c)\<lparr>sub_Document := Some document,
             sub_Fields := SubscriptionFieldNamesFromDocument document\<rparr>)
           else None)"

lemma new_subscription_simps [simp]:
  "sub_ID (new_subscription start c) = start_ID start"
  "sub_Query (new_subscription start c) = obj_Query (start_Payload start)"
  "sub_Connection (new_subscription start c) = Some (c_id c)"
  by (simp_all add: new_subscription_def)

lemma new_subscription_world [simp]:
  "new_subscription start (c\<lparr>c_world := w\<rparr>) = new_subscription start c"
  by (simp add: new_subscription_def)

definition start_calls :: "'w env \<Rightarrow> GQLStart \<Rightarrow> 'w conn \<Rightarrow> panic option \<times> 'w" where
  "start_calls E start c =
     start_spec (handler_call HandleConnectionStart start E) (c_Handlers c) (c_world c)"

definition announced ::
  "'w env \<Rightarrow> Subscription \<Rightarrow> 'w conn \<Rightarrow> 'w \<Rightarrow> (panic + unit loop_end) \<times> 'w" where
  "announced E s c w =
     loop_spec (handler_call HandleSubscriptionStart s E) until_propagation_stopped (c_Handlers c) w"

lemma addSubscription_simps [simp]:
  "c_Handlers (addSubscription s c) = c_Handlers c"
  "c_world (addSubscription s c) = c_world c"
  "c_outgoing (addSubscription s c) = c_outgoing c"
  "c_incoming (addSubscription s c) = c_incoming c"
  "c_state (addSubscription s c) = c_state c"
  by (simp_all add: addSubscription_def)

lemma gqlStart_cases:
  "gqlStart E start c =
    (case start_calls E start c of
       (Some p, w) \<Rightarrow> Panic p (c\<lparr>c_world := w\<rparr>)
     | (None, w) \<Rightarrow> (case accepted_subscription E start c of
           None \<Rightarrow> Ret () (c\<lparr>c_world := w\<rparr>)
         | Some s \<Rightarrow> andthen (each_handler (calling HandleSubscriptionStart s E)
             (do_reaction until_propagation_stopped :: _ \<Rightarrow> _ \<Rightarrow> (panic, unit ctl, 'w conn) prog)
             (c_Handlers c) (addSubscription s (c\<lparr>c_world := w\<rparr>))) (\<lambda>_ c. Ret () c)))"
proof (cases "start_calls E start c")
  case (Pair po w)
  have "ValidateSubscription (new_subscription start c) = [] \<longleftrightarrow>
      start_ID start \<noteq> '''' \<and> obj_Query (start_Payload start) \<noteq> ''''"
    by (simp add: ValidateSubscription_empty_iff)
  then show ?thesis
    using Pair
    by (cases po) (auto simp: gqlStart_def connection_start_errors_empty start_calls_def
        accepted_subscription_def Let_def split: sum.split)
qed

lemma run_gqlStart:
  "run (gqlStart E start c) =
    (case start_calls E start c of
       (Some p, w) \<Rightarrow> Panicked p (c\<lparr>c_world := w\<rparr>)
     | (None, w) \<Rightarrow> (case accepted_subscription E start c of
           None \<Rightarrow> Done () (c\<lparr>c_world := w\<rparr>)
         | Some s \<Rightarrow> (case announced E s c w of
               (Inl p, w') \<Rightarrow> Panicked p ((addSubscription s c)\<lparr>c_world := w'\<rparr>)
             | (Inr e, w') \<Rightarrow> Done () ((addSubscription s c)\<lparr>c_world := w'\<rparr>))))"
  by (auto simp: gqlStart_cases announced_def run_simps addSubscription_def
      split: prod.split option.split sum.split)

definition stop_calls :: "'w env \<Rightarrow> GQLStop \<Rightarrow> 'w conn \<Rightarrow> (panic + goerr loop_end) \<times> 'w" where
  "stop_calls E stop c = loop_spec (handler_call HandleConnectionStop stop E) ignoring_errors
     (c_Handlers c) (c_world c)"

lemma run_gqlStop:
  "run (gqlStop E stop c) =
    (case stop_calls E stop c of
       (Inl p, w) \<Rightarrow> Panicked p (c\<lparr>c_world := w\<rparr>)
     | (Inr e, w) \<Rightarrow> (case c_Subscriptions c (stop_ID stop) of
           None \<Rightarrow> Done () (c\<lparr>c_world := w\<rparr>)
         | Some s \<Rightarrow> (case loop_spec (handler_call HandleSubscriptionStop s E)
               (until_propagation_stopped :: unit reaction) (c_Handlers c) w of
               (Inl p, w') \<Rightarrow> Panicked p (c\<lparr>c_world := w'\<rparr>)
             | (Inr e, w') \<Rightarrow> Done () (c\<lparr>c_world := w'\<rparr>))))"
  by (auto simp: gqlStop_def run_simps stop_calls_def map_load_def
      split: prod.splits sum.splits option.splits)

lemma run_recover:
  assumes "idle c"
  shows "run (recover E t r c) =
    (case loop_spec (handler_call HandlePanic (t, r) E)
        (until_propagation_stopped :: unit reaction) (c_Handlers c) (c_world c) of
       (Inl p, w) \<Rightarrow> Panicked p (c\<lparr>c_world := w\<rparr>)
     | (Inr e, w) \<Rightarrow> if c_state c = connStateClosed then Done () (c\<lparr>c_world := w\<rparr>)
         else run (send_in operationMessageEOF (c\<lparr>c_world := w\<rparr>)))"
  using assms by (auto simp: recover_def run_simps idle_def split: prod.splits sum.splits)

lemma run_deferred_close [run_simps]:
  "run (deferred_close E po c) = (case run (close E c) of
       Done r s \<Rightarrow> Done po s | Panicked p s \<Rightarrow> Done (Some p) s | Stuck g s \<Rightarrow> Stuck g s)"
  by (simp add: deferred_close_def run_simps bind_outcome_def split: outcome.splits)

end
