(* ===== verification/Guarantees.thy ===== *)
theory Guarantees
  imports Processing
begin

text \<open>
  What the operations of a connection guarantee to other goroutines.  Every operation changes
  the connection by a few primitive updates only; the locale \<open>conn_guarantee\<close> shows once that
  an operation made of them guarantees any relation that allows them and keeps any invariant
  they keep.  The locale \<open>processor_guarantee\<close> adds what only \<open>processMessages\<close> does:
  establishing, receiving, registering subscriptions.  Theory \<open>Interleaving\<close> interprets both.
\<close>

subsection \<open>The outside state\<close>

text \<open>
  What handlers and libraries do to the outside state is arbitrary, unless a relation \<open>V\<close> is
  known that all of them keep to.
\<close>

definition method_ok :: "('w \<Rightarrow> 'w \<Rightarrow> bool) \<Rightarrow> ('arg, 'r, 'w) go_method option \<Rightarrow> bool" where
  "method_ok V mo \<longleftrightarrow> (\<forall>f a w. mo = Some f \<longrightarrow> V w (snd (f a w)))"

definition methods_ok :: "('w \<Rightarrow> 'w \<Rightarrow> bool) \<Rightarrow> ('sub, 'w) methods \<Rightarrow> bool" where
  "methods_ok V D \<longleftrightarrow> method_ok V (HandlePanic D) \<and> method_ok V (HandleConnectionInit D) \<and>
     method_ok V (HandleConnectionStart D) \<and> method_ok V (HandleConnectionStop D) \<and>
     method_ok V (HandleConnectionTerminate D) \<and> method_ok V (HandleSubscriptionStart D) \<and>
     method_ok V (HandleSubscriptionStop D) \<and> method_ok V (HandleWebsocketPong D) \<and>
     method_ok V (HandleWebsocketPing D) \<and> method_ok V (HandleWebsocketClose D)"

text \<open>Everything but the writing of messages, which only \<open>processMessages\<close> does.\<close>

definition calls_ok :: "('w \<Rightarrow> 'w \<Rightarrow> bool) \<Rightarrow> 'w env \<Rightarrow> bool" where
  "calls_ok V E \<longleftrightarrow> (\<forall>n. methods_ok V (impls E n)) \<and> (\<forall>f w. V w (snd (ws_WriteMessage E f w))) \<and>
     (\<forall>f d w. V w (snd (ws_WriteControl E f d w))) \<and> (\<forall>w. V w (snd (ws_Close E w))) \<and>
     (\<forall>d w. V w (snd (ws_SetReadDeadline E d w))) \<and>
     (\<forall>d w. V w (snd (ws_SetWriteDeadline E d w))) \<and> (\<forall>l w. V w (snd (ws_SetReadLimit E l w)))"

definition env_ok :: "('w \<Rightarrow> 'w \<Rightarrow> bool) \<Rightarrow> 'w env \<Rightarrow> bool" where
  "env_ok V E \<longleftrightarrow> calls_ok V E \<and> (\<forall>j w. V w (snd (ws_WriteJSON E j w)))"

lemma env_okD: "env_ok V E \<Longrightarrow> calls_ok V E" "env_ok V E \<Longrightarrow> V w (snd (ws_WriteJSON E j w))"
  by (simp_all add: env_ok_def)

lemma env_ok_True: "env_ok (\<lambda>_ _. True) E"
  by (simp add: env_ok_def calls_ok_def methods_ok_def method_ok_def)

lemmas calls_ok_True = env_okD(1) [OF env_ok_True]

lemma method_ok_None [simp]: "method_ok V None"
  by (simp add: method_ok_def)

lemma methods_ok_of: "calls_ok V E \<Longrightarrow> methods_ok V (methods_of (impls E) h)"
  by (cases h) (simp_all add: calls_ok_def methods_ok_def)

lemma loop_spec_step:
  assumes "reflp V" and "transp V" and "\<And>h m w. call h = Some m \<Longrightarrow> V w (snd (m w))"
  shows "V w (snd (loop_spec call react hs w))"
proof (induction hs arbitrary: w)
  case Nil
  then show ?case using assms(1) by (simp add: reflpD)
next
  case (Cons h hs)
  show ?case
  proof (cases "call h")
    case (Some m)
    then have m: "V w (snd (m w))" by (rule assms(3))
    then have "V w (snd (loop_spec call react hs (snd (m w))))"
      using transpD [OF assms(2) m] Cons by blast
    with Some m show ?thesis
      by (cases "m w") (auto split: call.splits sum.splits ctl.splits)
  qed (simp add: Cons)
qed

lemma start_spec_step:
  assumes "reflp V" and "transp V" and "\<And>h m w. call h = Some m \<Longrightarrow> V w (snd (m w))"
  shows "V w (snd (start_spec call hs w))"
proof (induction hs arbitrary: w)
  case Nil
  then show ?case using assms(1) by (simp add: reflpD)
next
  case (Cons h hs)
  show ?case
  proof (cases "call h")
    case (Some m)
    then have m: "V w (snd (m w))" by (rule assms(3))
    then have "V w (snd (start_spec call hs (snd (m w))))"
      using transpD [OF assms(2) m] Cons by blast
    with Some m show ?thesis by (cases "m w") (auto split: call.splits)
  qed (simp add: Cons)
qed

subsection \<open>The primitive updates\<close>

inductive prim :: "('w \<Rightarrow> 'w \<Rightarrow> bool) \<Rightarrow> 'w conn \<Rightarrow> 'w conn \<Rightarrow> bool" for V where
  prim_world: "V (c_world s) w \<Longrightarrow> prim V s (s\<lparr>c_world := w\<rparr>)"
| prim_wlock: "prim V s (s\<lparr>c_wlock := b\<rparr>)"
| prim_rlocks: "prim V s (s\<lparr>c_rlocks := n\<rparr>)"
| prim_hlock: "prim V s (s\<lparr>c_hlock := b\<rparr>)"
| prim_Handlers: "prim V s (s\<lparr>c_Handlers := hs\<rparr>)"
| prim_out: "\<not> chan_closed (c_outgoing s) \<Longrightarrow> can_send (c_outgoing s) \<Longrightarrow>
    prim V s (s\<lparr>c_outgoing := chan_push m (c_outgoing s)\<rparr>)"
| prim_in: "\<not> chan_closed (c_incoming s) \<Longrightarrow> can_send (c_incoming s) \<Longrightarrow>
    prim V s (s\<lparr>c_incoming := chan_push operationMessageEOF (c_incoming s)\<rparr>)"
| prim_closed: "prim V s (s\<lparr>c_state := connStateClosed\<rparr>)"
| prim_shutdown: "prim V s (s\<lparr>c_shutdown := True\<rparr>)"
| prim_close_out: "c_shutdown s \<Longrightarrow> prim V s (s\<lparr>c_outgoing := chan_close (c_outgoing s)\<rparr>)"
| prim_close_in: "c_shutdown s \<Longrightarrow> chan_closed (c_outgoing s) \<Longrightarrow>
    prim V s (s\<lparr>c_incoming := chan_close (c_incoming s)\<rparr>)"

subsection \<open>Operations any goroutine uses\<close>

locale conn_guarantee =
  fixes V :: "'w \<Rightarrow> 'w \<Rightarrow> bool" and E :: "'w env"
    and R G :: "'w conn \<Rightarrow> 'w conn \<Rightarrow> bool" and J :: "'w conn \<Rightarrow> bool"
  assumes V_refl: "reflp V" and V_trans: "transp V" and V_env: "calls_ok V E"
    and G_trans: "transp G" and G_refl: "G s s"
    and prim_G: "prim V s t \<Longrightarrow> G s t"
    and prim_J: "prim V s t \<Longrightarrow> J s \<Longrightarrow> J t"
    and R_J: "R s t \<Longrightarrow> J s \<Longrightarrow> J t"
    and R_shutdown: "R s t \<Longrightarrow> c_shutdown s \<Longrightarrow> c_shutdown t"
begin

text \<open>\<open>m\<close> started in \<open>s\<close> guarantees \<open>G\<close> and returns in a state that satisfies \<open>J\<close>.\<close>

definition safe :: "'w conn \<Rightarrow> ('a, 'w) cprog \<Rightarrow> bool" where
  "safe s m \<longleftrightarrow> rg R G (\<lambda>_ t. J t) s m"

lemma safe_Ret: "J s \<Longrightarrow> safe s (Ret a s)"
  by (simp add: safe_def G_refl)

lemma safe_Panic: "safe s (Panic p s)"
  by (simp add: safe_def G_refl)

lemma safe_andthen: "safe s m \<Longrightarrow> (\<And>a t. J t \<Longrightarrow> safe t (f a t)) \<Longrightarrow> safe s (andthen m f)"
  unfolding safe_def by (rule rg_andthen [OF G_trans])

lemma safe_finally:
  "safe s m \<Longrightarrow> (\<And>t. prim V t (u t)) \<Longrightarrow> safe s (finally_do m u)"
  unfolding safe_def
  by (rule rg_finally_do [OF G_trans, where Q = "\<lambda>_ t. J t"]) (auto intro: prim_G prim_J)

lemma safe_catch:
  "safe s m \<Longrightarrow> (\<And>p t. rg R G (\<lambda>_ t. J t) t (h p t)) \<Longrightarrow> safe s (catch_panic m h)"
  unfolding safe_def by (rule rg_catch_panic [OF G_trans])

lemma safe_wait:
  "J s \<Longrightarrow> (\<And>t. J t \<Longrightarrow> g t \<Longrightarrow> safe t (k t)) \<Longrightarrow> safe s (wait_for g k s)"
  unfolding safe_def by (rule rg_wait_for) (auto intro: G_refl R_J)

lemma safe_prim: "J s \<Longrightarrow> prim V s t \<Longrightarrow> safe s (Ret a t)"
  by (auto simp: safe_def intro: prim_G prim_J)

lemma safe_prim_Panic: "prim V s t \<Longrightarrow> safe s (Panic p t)"
  by (auto simp: safe_def intro: prim_G)

lemma prim_unlocks: "prim V t (unlock_state t)" "prim V t (runlock_state t)" "prim V t (unlock_handlers t)"
  by (simp_all add: unlock_defs prim.intros)

lemma safe_locks:
  assumes "J s"
  shows "safe s (lock_state s)" and "safe s (rlock_state s)" and "safe s (lock_handlers s)"
    and "safe s (sleep s)"
  using assms
  by (auto simp: lock_state_def rlock_state_def lock_handlers_def sleep_def
      intro!: safe_wait safe_prim prim.intros safe_Ret)

lemma safe_sends:
  assumes "J s"
  shows "safe s (send_out m s)" and "safe s (send_in operationMessageEOF s)"
  using assms
  by (auto simp: send_out_def send_in_def intro!: safe_wait safe_prim prim.intros safe_Panic)

text \<open>A way to select a method of a handler all of whose calls keep to \<open>V\<close>; every one does.\<close>

definition sel_ok :: "((Subscription, 'w) methods \<Rightarrow> ('arg, 'r, 'w) go_method option) \<Rightarrow> bool" where
  "sel_ok sel \<longleftrightarrow> (\<forall>h. method_ok V (sel (methods_of (impls E) h)))"

lemma sel_ok_all:
  "sel_ok HandlePanic" "sel_ok HandleConnectionInit" "sel_ok HandleConnectionStart"
  "sel_ok HandleConnectionStop" "sel_ok HandleConnectionTerminate" "sel_ok HandleSubscriptionStart"
  "sel_ok HandleSubscriptionStop" "sel_ok HandleWebsocketPong" "sel_ok HandleWebsocketClose"
  using methods_ok_of [OF V_env] by (simp_all add: sel_ok_def methods_ok_def)

lemma sel_okD: "sel_ok sel \<Longrightarrow> sel (methods_of (impls E) h) = Some m \<Longrightarrow> V w (snd (m arg w))"
  by (auto simp: sel_ok_def method_ok_def)

lemma handler_call_V: "sel_ok sel \<Longrightarrow> handler_call sel arg E h = Some m \<Longrightarrow> V w (snd (m w))"
  by (auto simp: handler_call_def dest: sel_okD)

lemma loop_V:
  assumes "sel_ok sel" and "loop_spec (handler_call sel arg E) react hs w = (x, w')"
  shows "V w w'"
proof -
  have "V w (snd (loop_spec (handler_call sel arg E) react hs w))"
    by (rule loop_spec_step [OF V_refl V_trans]) (rule handler_call_V [OF assms(1)])
  with assms(2) show ?thesis by simp
qed

lemma start_V:
  assumes "start_spec (handler_call HandleConnectionStart arg E) hs w = (x, w')"
  shows "V w w'"
proof -
  have "V w (snd (start_spec (handler_call HandleConnectionStart arg E) hs w))"
    by (rule start_spec_step [OF V_refl V_trans]) (rule handler_call_V [OF sel_ok_all(3)])
  with assms show ?thesis by simp
qed

lemma safe_calling:
  assumes "J s" and "sel_ok sel" and "calling sel arg E h = Some m"
  shows "safe s (m s)"
proof -
  obtain f where f: "sel (methods_of (impls E) h) = Some f" "m = invoke f arg"
    using assms(3) by (auto simp: calling_def)
  have "V (c_world s) (snd (f arg (c_world s)))" by (rule sel_okD [OF assms(2) f(1)])
  with f(2) assms(1) show ?thesis
    by (cases "f arg (c_world s)")
      (auto simp: invoke_def intro!: safe_prim safe_prim_Panic prim.intros split: call.splits)
qed

lemma safe_extcall: "J s \<Longrightarrow> (\<And>w. V w (snd (f w))) \<Longrightarrow> safe s (extcall f s)"
  by (auto simp: extcall_def intro!: safe_prim prim.intros split: prod.splits) (metis snd_conv)

lemma ext_V:
  "V w (snd (ws_WriteMessage E f w))"
  "V w (snd (ws_WriteControl E f d w))" "V w (snd (ws_Close E w))"
  "V w (snd (ws_SetReadDeadline E d w))" "V w (snd (ws_SetWriteDeadline E d w))"
  "V w (snd (ws_SetReadLimit E l w))"
  using V_env by (simp_all add: calls_ok_def)

lemma safe_loop:
  "J s \<Longrightarrow> sel_ok sel \<Longrightarrow> safe s (each_handler (calling sel arg E) (do_reaction react) hs s)"
  by (auto simp: each_handler_calling intro!: safe_prim safe_prim_Panic prim.intros
      split: prod.splits sum.splits dest: loop_V)

lemmas safe_calls = safe_extcall [OF _ ext_V(1)] safe_extcall [OF _ ext_V(2)]
  safe_extcall [OF _ ext_V(3)] safe_extcall [OF _ ext_V(4)] safe_extcall [OF _ ext_V(5)]
  safe_extcall [OF _ ext_V(6)]
  safe_loop [OF _ sel_ok_all(1)] safe_loop [OF _ sel_ok_all(2)] safe_loop [OF _ sel_ok_all(4)]
  safe_loop [OF _ sel_ok_all(5)] safe_loop [OF _ sel_ok_all(6)] safe_loop [OF _ sel_ok_all(7)]
  safe_loop [OF _ sel_ok_all(8)] safe_loop [OF _ sel_ok_all(9)]

lemma safe_getState: "J s \<Longrightarrow> safe s (getState s)"
  unfolding getState_def
  by (intro safe_andthen safe_locks safe_finally safe_Ret prim_unlocks)

lemma safe_setState:
  assumes "J s" and "\<And>t. G t (t\<lparr>c_state := v\<rparr>)" and "\<And>t. J t \<Longrightarrow> J (t\<lparr>c_state := v\<rparr>)"
  shows "safe s (setState v s)"
proof -
  have "safe t (Ret () (t\<lparr>c_state := v\<rparr>))" if "J t" for t
    using that assms(2,3) by (simp add: safe_def)
  then show ?thesis
    unfolding setState_def using assms(1) by (intro safe_andthen safe_locks safe_finally prim_unlocks)
qed

lemma safe_AddHandler: "J s \<Longrightarrow> safe s (AddHandler h s)"
  unfolding AddHandler_def
  by (intro safe_andthen safe_locks safe_finally safe_prim prim.intros prim_unlocks)

lemma safe_RemoveHandler: "J s \<Longrightarrow> safe s (RemoveHandler h s)"
  unfolding RemoveHandler_def
  by (auto intro!: safe_andthen safe_locks safe_finally safe_prim prim.intros prim_unlocks
      safe_Panic split: option.splits)

lemma safe_SendData: "J s \<Longrightarrow> safe s (SendData m s)"
  by (simp add: SendData_def safe_sends)

lemma safe_SendError: "J s \<Longrightarrow> safe s (SendError E err s)"
  unfolding SendError_def
  by (auto intro!: safe_andthen safe_getState safe_sends safe_Ret split: option.splits)

lemma safe_sendConnectionError: "J s \<Longrightarrow> safe s (sendConnectionError err s)"
  unfolding sendConnectionError_def
  by (auto intro!: safe_andthen safe_locks safe_finally prim_unlocks safe_sends safe_Ret
      split: option.splits)

lemma safe_sendOperationErrors: "J s \<Longrightarrow> safe s (sendOperationErrors E i errs s)"
  unfolding sendOperationErrors_def
  by (auto intro!: safe_andthen safe_locks safe_finally prim_unlocks safe_sends safe_Ret
      split: option.splits)

lemma safe_Subscription_SendData: "J s \<Longrightarrow> safe s (Subscription_SendData E x d s)"
  unfolding Subscription_SendData_def
  by (auto intro!: safe_andthen safe_SendData safe_Ret split: option.splits)

lemma safe_pongHandler: "J s \<Longrightarrow> safe s (pongHandler E message s)"
  unfolding pongHandler_def
  by (auto intro!: safe_andthen safe_calls safe_Ret split: option.splits loop_end.splits)

lemma safe_recover: "J s \<Longrightarrow> safe s (recover E t r s)"
  unfolding recover_def
  by (auto intro!: safe_andthen safe_calls safe_getState safe_sends safe_Ret)

text \<open>
  Closing: the channels are closed after \<open>shutdown\<close>, which stays closed whatever happens
  during the sleep.
\<close>

lemma rg_close_tail:
  assumes "J s" and "c_shutdown s"
  shows "rg R G (\<lambda>_ t. J t) s (andthen (sleep s) (\<lambda>_ c. andthen (close_out c) (\<lambda>_ c.
     andthen (close_in c) (\<lambda>_ c. extcall (ws_Close E) c))))"
proof (rule rg_andthen [OF G_trans, where Q = "\<lambda>_ t. J t \<and> c_shutdown t"])
  show "rg R G (\<lambda>_ t. J t \<and> c_shutdown t) s (sleep s)"
    using assms by (auto simp: sleep_def intro!: rg_wait_for G_refl intro: R_J R_shutdown)
next
  fix u t assume t: "J t \<and> c_shutdown t"
  show "rg R G (\<lambda>_ t. J t) t (andthen (close_out t) (\<lambda>_ c.
     andthen (close_in c) (\<lambda>_ c. extcall (ws_Close E) c)))"
  proof (rule rg_andthen [OF G_trans, where Q = "\<lambda>_ t. J t \<and> c_shutdown t \<and> chan_closed (c_outgoing t)"])
    show "rg R G (\<lambda>_ t. J t \<and> c_shutdown t \<and> chan_closed (c_outgoing t)) t (close_out t)"
      using t by (auto simp: close_out_def G_refl intro: prim_G prim_J prim.intros)
  next
    fix v t' assume t': "J t' \<and> c_shutdown t' \<and> chan_closed (c_outgoing t')"
    then have "safe t' (close_in t')"
      by (auto simp: close_in_def intro!: safe_prim safe_Panic prim.intros)
    then show "rg R G (\<lambda>_ t. J t) t' (andthen (close_in t') (\<lambda>_ c. extcall (ws_Close E) c))"
      unfolding safe_def [symmetric] by (intro safe_andthen safe_calls)
  qed
qed

lemma safe_close_body: "J s \<Longrightarrow> safe s (close_body E s)"
proof -
  assume J: "J s"
  let ?s = "s\<lparr>c_state := connStateClosed\<rparr>"
  have s: "G s ?s" "J ?s" using J by (auto intro: prim_G prim_J prim.intros)
  have start: "rg R G (\<lambda>_ t. J t \<and> c_shutdown t) ?s (close_shutdown ?s)"
    using s(2) by (auto simp: close_shutdown_def G_refl intro: prim_G prim_J prim.intros)
  have loop: "rg R G (\<lambda>_ t. J t \<and> c_shutdown t) t
      (each_handler (calling HandleWebsocketClose (0, '''') E) (do_reaction until_stopped_or_error)
        (c_Handlers t) t)" if "J t \<and> c_shutdown t" for t
    using that sel_ok_all(9) by (auto simp: each_handler_calling intro: prim_G prim_J prim.intros
        split: prod.splits sum.splits dest!: loop_V)
  have body: "rg R G (\<lambda>_ t. J t) ?s (andthen (close_shutdown ?s) (\<lambda>_ c.
       andthen (each_handler (calling HandleWebsocketClose (0, '''') E)
           (do_reaction until_stopped_or_error) (c_Handlers c) c) (\<lambda>e c.
         case e of
           Returned err \<Rightarrow> Ret (Some err) c
         | _ \<Rightarrow> andthen (sleep c) (\<lambda>_ c.
             andthen (close_out c) (\<lambda>_ c.
             andthen (close_in c) (\<lambda>_ c.
             extcall (ws_Close E) c))))))"
    by (rule rg_andthen [OF G_trans start], rule rg_andthen [OF G_trans loop])
      (auto simp: G_refl intro: rg_close_tail split: loop_end.splits)
  have "rg R G (\<lambda>_ t. J t) s (close_body E s)"
    unfolding close_body_def
    by (rule rg_if) (use J in \<open>simp add: G_refl\<close>, rule rg_trans [OF G_trans s(1) body])
  then show ?thesis by (simp add: safe_def)
qed

lemma safe_close: "J s \<Longrightarrow> safe s (close E s)"
  unfolding close_def
  by (intro safe_andthen safe_locks safe_finally safe_close_body prim_unlocks)

lemma safe_Close: "J s \<Longrightarrow> safe s (Close E s)"
  unfolding Close_def
  by (auto intro!: safe_andthen safe_getState safe_calls safe_close safe_Ret safe_Panic
      split: option.splits)

end

subsection \<open>The reading goroutine\<close>

text \<open>Only \<open>readPump\<close> queues messages of the peer; the others queue the end-of-file message.\<close>

locale reader_guarantee = conn_guarantee V E R G J
  for V :: "'w \<Rightarrow> 'w \<Rightarrow> bool" and E and R G :: "'w conn \<Rightarrow> 'w conn \<Rightarrow> bool" and J +
  assumes initializing_G: "G s (s\<lparr>c_state := connStateInitializing\<rparr>)"
    and initializing_J: "J s \<Longrightarrow> J (s\<lparr>c_state := connStateInitializing\<rparr>)"
    and message_G: "\<not> chan_closed (c_incoming s) \<Longrightarrow> can_send (c_incoming s) \<Longrightarrow>
      G s (s\<lparr>c_incoming := chan_push (Msg m) (c_incoming s)\<rparr>)"
    and message_J: "J s \<Longrightarrow> \<not> chan_closed (c_incoming s) \<Longrightarrow> can_send (c_incoming s) \<Longrightarrow>
      J (s\<lparr>c_incoming := chan_push (Msg m) (c_incoming s)\<rparr>)"
begin

lemma safe_send_message: "J s \<Longrightarrow> safe s (send_in (Msg m) s)"
  unfolding send_in_def
  by (rule safe_wait) (auto simp: safe_def G_refl intro: message_G message_J)

lemma safe_readPump_start: "J s \<Longrightarrow> safe s (readPump_start E s)"
  unfolding readPump_start_def
  by (auto intro!: safe_andthen safe_setState initializing_G initializing_J safe_calls safe_Ret
      split: option.splits)

lemma safe_ReadJSON: "J s \<Longrightarrow> safe s (ReadJSON E pongs r s)"
proof (induction pongs arbitrary: s)
  case Nil
  then show ?case
    by (cases r) (auto simp: closeHandler_def intro!: safe_wait safe_Ret safe_andthen safe_close)
next
  case (Cons p pongs)
  then show ?case
    by (auto intro!: safe_wait safe_andthen safe_pongHandler safe_Ret split: option.splits)
qed

lemma safe_queue_read: "J s \<Longrightarrow> safe s (queue_read r s)"
  unfolding queue_read_def
  by (auto intro!: safe_andthen safe_sends safe_send_message safe_Ret safe_Panic
      split: sum.splits option.splits goerr.splits)

lemma safe_readPump_body: "J s \<Longrightarrow> safe s (readPump_body E pongs r s)"
  unfolding readPump_body_def
  by (auto intro!: safe_andthen safe_getState safe_ReadJSON safe_queue_read safe_Ret)

end

context conn_guarantee
begin

lemma safe_deferred_close: "safe s (deferred_close E po s)" if "J s" and "\<And>t. J t" for s
  unfolding deferred_close_def
  using that by (intro safe_catch safe_andthen safe_close safe_Ret) (auto simp: G_refl)

lemma safe_exits:
  assumes "\<And>t. J t"
  shows "safe s (readPump_exit E po s)" and "safe s (processMessages_exit E po s)"
  unfolding readPump_exit_def processMessages_exit_def
  using assms
  by (auto intro!: safe_andthen safe_deferred_close safe_recover safe_Ret safe_Panic
      split: option.splits)

lemma safe_each_handler:
  assumes "J s" and "\<And>h m t. call h = Some m \<Longrightarrow> J t \<Longrightarrow> safe t (m t)"
    and "\<And>e t. J t \<Longrightarrow> safe t (react e t)"
  shows "safe s (each_handler call react hs s)"
  using assms(1)
proof (induction hs arbitrary: s)
  case (Cons h hs)
  then show ?case
    using assms(2,3)
    by (auto intro!: safe_andthen safe_Ret split: option.splits ctl.splits)
qed (simp add: safe_Ret)

text \<open>What \<open>processMessages\<close> does without changing the state or the table.\<close>

lemma safe_init_reaction: "J s \<Longrightarrow> safe s (init_reaction err s)"
  unfolding init_reaction_def
  by (auto intro!: safe_Ret safe_Panic safe_andthen safe_sendConnectionError
      split: option.splits goerr.splits)

lemma safe_init:
  assumes "\<And>t. J t \<Longrightarrow> safe t (andthen (setState connStateEstablished t) (\<lambda>_ c.
      send_out (Msg gqlConnectionAck_message) c))" and "J s"
  shows "safe s (process_init E m s)"
  using assms unfolding process_init_def lockHandlers_def
  by (auto intro!: safe_andthen safe_locks safe_finally safe_each_handler safe_init_reaction
      prim_unlocks safe_sends safe_calling [OF _ sel_ok_all(2)] split: loop_end.splits)

lemma safe_process_terminate: "J s \<Longrightarrow> safe s (process_terminate E s)"
  unfolding process_terminate_def by (intro safe_andthen safe_calls safe_sends)

lemma safe_gqlStop: "J s \<Longrightarrow> safe s (gqlStop E stop s)"
  unfolding gqlStop_def
  by (auto intro!: safe_andthen safe_calls safe_Ret split: option.splits)

lemma safe_process_stop: "J s \<Longrightarrow> safe s (process_stop E m s)"
  unfolding process_stop_def
  by (auto intro!: safe_andthen safe_close safe_gqlStop safe_Ret safe_Panic split: sum.splits)

lemma safe_send_ping: "J s \<Longrightarrow> safe s (send_ping E s)"
  unfolding send_ping_def
  by (auto intro!: safe_andthen safe_calls safe_Ret safe_Panic split: option.splits)

lemma safe_processMessages_start: "J s \<Longrightarrow> safe s (processMessages_start E s)"
  unfolding processMessages_start_def
  by (auto intro!: safe_andthen safe_recover safe_Ret)

text \<open>Writing a message, for those guarantees that do not look at what is written.\<close>

lemma safe_outgoing:
  assumes "\<And>s. G s (s\<lparr>c_outgoing := snd (chan_recv NilMsg (c_outgoing s))\<rparr>)"
    and "\<And>s. J s \<Longrightarrow> J (s\<lparr>c_outgoing := snd (chan_recv NilMsg (c_outgoing s))\<rparr>)"
    and "\<And>j w. V w (snd (ws_WriteJSON E j w))" and "J s"
  shows "safe s (select_body E SelOutgoing s)"
proof -
  have "safe t (processOutgoingMessage E p t)" if "J t" for p t
    using that unfolding processOutgoingMessage_def
    by (auto intro!: safe_andthen safe_calls safe_extcall [OF _ assms(3)] safe_Ret safe_Panic
        split: option.splits)
  then have "safe (s\<lparr>c_outgoing := snd (chan_recv NilMsg (c_outgoing s))\<rparr>)
      (andthen (processOutgoingMessage E p (s\<lparr>c_outgoing := snd (chan_recv NilMsg (c_outgoing s))\<rparr>))
        (\<lambda>err c. Ret True c))" for p
    using assms(2,4) by (intro safe_andthen safe_Ret) auto
  then show ?thesis
    unfolding safe_def
    by (simp add: select_body_def split_beta) (rule rg_trans [OF G_trans assms(1)])
qed

end

subsection \<open>The processing goroutine\<close>

text \<open>
  \<open>J\<close> holds between two messages.  \<open>A\<close> is a condition that sending the acknowledgement
  establishes, that is never lost, and that \<open>J\<close> implies of an established connection; with it
  a subscription may be registered.
\<close>

locale processor_guarantee = conn_guarantee V E R G J
  for V :: "'w \<Rightarrow> 'w \<Rightarrow> bool" and E and R G :: "'w conn \<Rightarrow> 'w conn \<Rightarrow> bool" and J +
  fixes A :: "'w conn \<Rightarrow> bool"
  assumes J_A: "J s \<Longrightarrow> c_state s = connStateEstablished \<Longrightarrow> A s"
    and A_J: "A s \<Longrightarrow> J s"
    and R_A: "R s t \<Longrightarrow> A s \<Longrightarrow> A t"
    and prim_A: "prim V s t \<Longrightarrow> A s \<Longrightarrow> A t"
    and ack_A: "A (s\<lparr>c_outgoing := chan_push (Msg gqlConnectionAck_message) (c_outgoing s)\<rparr>)"
    and established_G: "G s (s\<lparr>c_state := connStateEstablished\<rparr>)"
    and recv_in_G: "G s (s\<lparr>c_incoming := snd (chan_recv NilMsg (c_incoming s))\<rparr>)"
    and recv_in_J: "J s \<Longrightarrow> J (s\<lparr>c_incoming := snd (chan_recv NilMsg (c_incoming s))\<rparr>)"
    and outgoing: "J s \<Longrightarrow> can_recv (c_outgoing s) \<Longrightarrow> safe s (select_body E SelOutgoing s)"
    and add_G: "A s \<Longrightarrow> G s (addSubscription x s)"
    and add_A: "A s \<Longrightarrow> A (addSubscription x s)"
begin

text \<open>Where \<open>A\<close> holds, every operation keeps it.\<close>

sublocale acked: conn_guarantee V E R G A
  by unfold_locales (auto intro: V_refl V_trans V_env G_trans G_refl prim_G prim_A R_A R_shutdown)

lemma safe_of_acked: "acked.safe s m \<Longrightarrow> safe s m"
  unfolding acked.safe_def safe_def by (erule rg_weaken) (rule A_J)

lemma safe_acknowledge:
  "safe s (andthen (setState connStateEstablished s) (\<lambda>_ c.
     send_out (Msg gqlConnectionAck_message) c))"
  unfolding safe_def
proof (rule rg_andthen [OF G_trans, where Q = "\<lambda>_ _. True"])
  show "rg R G (\<lambda>_ _. True) s (setState connStateEstablished s)"
    unfolding setState_def
  proof (rule rg_andthen [OF G_trans, where Q = "\<lambda>_ _. True"])
    show "rg R G (\<lambda>_ _. True) s (lock_state s)"
      by (simp add: lock_state_def wait_for_def G_refl prim_G [OF prim_wlock])
  next
    fix u t
    show "rg R G (\<lambda>_ _. True) t
        (finally_do (Ret () (t\<lparr>c_state := connStateEstablished\<rparr>)) unlock_state)"
      using transpD [OF G_trans established_G prim_G [OF prim_unlocks(1)], of t] by simp
  qed
next
  fix u t
  show "rg R G (\<lambda>_ t. J t) t (send_out (Msg gqlConnectionAck_message) t)"
    by (simp add: send_out_def wait_for_def G_refl prim_G [OF prim_out] A_J [OF ack_A])
qed

lemma safe_process_init: "J s \<Longrightarrow> safe s (process_init E m s)"
  by (rule safe_init [OF safe_acknowledge])

lemma acked_register:
  assumes "A s"
  shows "acked.safe s (andthen (each_handler (calling HandleSubscriptionStart x E)
    (do_reaction react) (c_Handlers s) (addSubscription x s)) (\<lambda>_ c. Ret () c))"
proof -
  have "acked.safe (addSubscription x s) (andthen (each_handler (calling HandleSubscriptionStart x E)
    (do_reaction react) (c_Handlers s) (addSubscription x s)) (\<lambda>_ c. Ret () c))"
    by (intro acked.safe_andthen acked.safe_calls acked.safe_Ret add_A assms)
  then show ?thesis
    unfolding acked.safe_def by (rule rg_trans [OF G_trans add_G [OF assms]])
qed

lemma acked_connection_start_errors:
  "A s \<Longrightarrow> acked.safe s (connection_start_errors E start hs [] s)"
  by (auto simp: connection_start_errors_empty split: prod.splits option.splits
      intro!: acked.safe_prim acked.safe_prim_Panic prim.intros dest: start_V)

lemma safe_gqlStart: "A s \<Longrightarrow> safe s (gqlStart E start s)"
  unfolding gqlStart_def Let_def
  by (rule safe_of_acked, rule acked.safe_andthen, erule acked_connection_start_errors)
    (auto intro: acked.safe_andthen acked.safe_sendOperationErrors acked.safe_Ret acked_register
      split: sum.split)

lemma getState_established:
  assumes "J s"
  shows "rg R G (\<lambda>st t. J t \<and> (st = connStateEstablished \<longrightarrow> A t)) s (getState s)"
  unfolding getState_def
proof (rule rg_andthen [OF G_trans, where Q = "\<lambda>_ t. J t"])
  show "rg R G (\<lambda>_ t. J t) s (rlock_state s)"
    using safe_locks(2) [OF assms] by (simp add: safe_def)
next
  fix u t assume "J t"
  then show "rg R G (\<lambda>st t. J t \<and> (st = connStateEstablished \<longrightarrow> A t)) t
      (finally_do (Ret (c_state t) t) runlock_state)"
    using J_A [of t]
    by (auto intro: prim_G prim_J prim_A prim_unlocks)
qed

lemma safe_process_start: "J s \<Longrightarrow> safe s (process_start E m s)"
  unfolding process_start_def safe_def
  by (rule rg_andthen [OF G_trans getState_established])
    (auto simp: G_refl safe_def [symmetric] intro!: safe_andthen safe_sendOperationErrors safe_Ret
      safe_Panic safe_gqlStart split: sum.splits)

lemma safe_processIncomeMessage: "J s \<Longrightarrow> safe s (processIncomeMessage E p s)"
  unfolding processIncomeMessage_def
  by (auto intro!: safe_process_init safe_process_terminate safe_process_start safe_process_stop
      safe_Ret safe_Panic split: option.splits)

lemma safe_after_recv:
  "J s \<Longrightarrow> (\<And>t. J t \<Longrightarrow> safe t (m t)) \<Longrightarrow>
    safe s (m (s\<lparr>c_incoming := snd (chan_recv NilMsg (c_incoming s))\<rparr>))"
  unfolding safe_def using rg_trans [OF G_trans recv_in_G] recv_in_J by blast

lemma safe_select_body:
  assumes "J s" and "select_ready sel s"
  shows "safe s (select_body E sel s)"
proof (cases sel)
  case SelIncoming
  let ?m = "\<lambda>p t. if p = operationMessageEOF then Ret False t
      else andthen (processIncomeMessage E p t) (\<lambda>_ c. Ret True c)"
  have "safe s (?m (fst (chan_recv NilMsg (c_incoming s)))
      (s\<lparr>c_incoming := snd (chan_recv NilMsg (c_incoming s))\<rparr>))"
    by (rule safe_after_recv [OF assms(1)])
      (auto intro!: safe_andthen safe_processIncomeMessage safe_Ret)
  then show ?thesis
    by (simp add: SelIncoming select_body_def Let_def split_beta)
next
  case SelOutgoing
  with assms show ?thesis by (simp add: outgoing)
qed (use assms in \<open>auto simp: select_body_def intro!: safe_Ret safe_send_ping\<close>)

lemma safe_processMessages_body: "J s \<Longrightarrow> safe s (processMessages_body E sel s)"
  unfolding processMessages_body_def by (auto intro!: safe_wait safe_select_body)

end

end
