(* ===== verification/Interleaving.thy ===== *)
theory Interleaving
  imports Guarantees "HOL-Library.Sublist"
begin

text \<open>
  The goroutines of one connection over its shared state: \<open>readPump\<close>, \<open>processMessages\<close>, and
  any number of calls of the exported methods by other goroutines.  A step of the system
  starts a piece of code of one goroutine, or resumes a goroutine whose operation can go on,
  and runs it up to the next operation that may block.  The code is that of the theories
  \<open>Connection\<close> and \<open>Processing\<close>, unchanged.
\<close>

subsection \<open>Goroutines\<close>

datatype phase = Starting | Looping | Leaving

text \<open>
  A goroutine is about to run the code of a phase (when leaving, with the panic that is
  unwinding), is waiting inside it, has ended, or has ended the program by a panic.
\<close>

datatype 'w goroutine =
    At phase "panic option"
  | Suspended phase "'w conn \<Rightarrow> bool" "'w conn \<Rightarrow> (bool, 'w) cprog"
  | Gone
  | Crashed panic

fun settle :: "phase \<Rightarrow> (bool, 'w) cprog \<Rightarrow> 'w goroutine \<times> 'w conn" where
  "settle ph (Wait g c k) = (Suspended ph g k, c)"
| "settle Starting (Ret go_on c) = (if go_on then At Looping None else Gone, c)"
| "settle Looping (Ret go_on c) = (if go_on then At Looping None else At Leaving None, c)"
| "settle Leaving (Ret go_on c) = (Gone, c)"
| "settle Looping (Panic p c) = (At Leaving (Some p), c)"
| "settle ph (Panic p c) = (Crashed p, c)"

definition reader_code ::
  "'w env \<Rightarrow> phase \<Rightarrow> panic option \<Rightarrow> string list \<Rightarrow> read_end \<Rightarrow> 'w conn \<Rightarrow> (bool, 'w) cprog" where
  "reader_code E ph po pongs r c = (case ph of
       Starting \<Rightarrow> readPump_start E c
     | Looping \<Rightarrow> readPump_body E pongs r c
     | Leaving \<Rightarrow> andthen (readPump_exit E po c) (\<lambda>_ c. Ret False c))"

definition processor_code ::
  "'w env \<Rightarrow> phase \<Rightarrow> panic option \<Rightarrow> select_case \<Rightarrow> 'w conn \<Rightarrow> (bool, 'w) cprog" where
  "processor_code E ph po sel c = (case ph of
       Starting \<Rightarrow> processMessages_start E c
     | Looping \<Rightarrow> processMessages_body E sel c
     | Leaving \<Rightarrow> andthen (processMessages_exit E po c) (\<lambda>_ c. Ret False c))"

text \<open>The exported methods, called by goroutines of the users of the library.\<close>

datatype api_call =
    CallClose
  | CallSendData msgptr
  | CallSendError goerr
  | CallSubscriptionSendData Subscription GQLDataObject
  | CallAddHandler handler
  | CallRemoveHandler handler

fun api_code :: "'w env \<Rightarrow> api_call \<Rightarrow> 'w conn \<Rightarrow> (bool, 'w) cprog" where
  "api_code E CallClose c = andthen (Close E c) (\<lambda>_ c. Ret False c)"
| "api_code E (CallSendData m) c = andthen (SendData m c) (\<lambda>_ c. Ret False c)"
| "api_code E (CallSendError e) c = andthen (SendError E e c) (\<lambda>_ c. Ret False c)"
| "api_code E (CallSubscriptionSendData s d) c =
     andthen (Subscription_SendData E s d c) (\<lambda>_ c. Ret False c)"
| "api_code E (CallAddHandler h) c = andthen (AddHandler h c) (\<lambda>_ c. Ret False c)"
| "api_code E (CallRemoveHandler h) c = andthen (RemoveHandler h c) (\<lambda>_ c. Ret False c)"

subsection \<open>The system\<close>

record 'w sys =
  con :: "'w conn"
  rd :: "'w goroutine"
  pr :: "'w goroutine"
  cls :: "'w goroutine list"

text \<open>\<open>NewConn\<close> starts the two goroutines.\<close>

definition start_sys :: "'w conn \<Rightarrow> 'w sys" where
  "start_sys c = \<lparr>con = c, rd = At Starting None, pr = At Starting None, cls = []\<rparr>"

fun crashed :: "'w goroutine \<Rightarrow> bool" where
  "crashed (Crashed p) = True"
| "crashed g = False"

text \<open>A panic that no function recovers ends the whole program: nothing runs after it.\<close>

definition alive :: "'w sys \<Rightarrow> bool" where
  "alive s \<longleftrightarrow> \<not> crashed (rd s) \<and> \<not> crashed (pr s) \<and> list_all (\<lambda>g. \<not> crashed g) (cls s)"

datatype event =
    ReaderGo "string list" read_end
  | ReaderResume
  | ProcGo select_case
  | ProcResume
  | CallGo api_call
  | CallResume nat

inductive sys_step :: "'w env \<Rightarrow> 'w sys \<Rightarrow> event \<Rightarrow> 'w sys \<Rightarrow> bool" for E where
  reader_go: "alive s \<Longrightarrow> rd s = At ph po \<Longrightarrow>
     settle ph (reader_code E ph po pongs r (con s)) = (g, c) \<Longrightarrow>
     sys_step E s (ReaderGo pongs r) (s\<lparr>con := c, rd := g\<rparr>)"
| reader_resume: "alive s \<Longrightarrow> rd s = Suspended ph guard k \<Longrightarrow> guard (con s) \<Longrightarrow>
     settle ph (k (con s)) = (g, c) \<Longrightarrow>
     sys_step E s ReaderResume (s\<lparr>con := c, rd := g\<rparr>)"
| proc_go: "alive s \<Longrightarrow> pr s = At ph po \<Longrightarrow>
     settle ph (processor_code E ph po sel (con s)) = (g, c) \<Longrightarrow>
     sys_step E s (ProcGo sel) (s\<lparr>con := c, pr := g\<rparr>)"
| proc_resume: "alive s \<Longrightarrow> pr s = Suspended ph guard k \<Longrightarrow> guard (con s) \<Longrightarrow>
     settle ph (k (con s)) = (g, c) \<Longrightarrow>
     sys_step E s ProcResume (s\<lparr>con := c, pr := g\<rparr>)"
| call_go: "alive s \<Longrightarrow> settle Leaving (api_code E a (con s)) = (g, c) \<Longrightarrow>
     sys_step E s (CallGo a) (s\<lparr>con := c, cls := cls s @ [g]\<rparr>)"
| call_resume: "alive s \<Longrightarrow> i < length (cls s) \<Longrightarrow> cls s ! i = Suspended ph guard k \<Longrightarrow>
     guard (con s) \<Longrightarrow> settle ph (k (con s)) = (g, c) \<Longrightarrow>
     sys_step E s (CallResume i) (s\<lparr>con := c, cls := (cls s)[i := g]\<rparr>)"

inductive_cases reader_go_cases: "sys_step E s (ReaderGo pongs r) t"
inductive_cases reader_resume_cases: "sys_step E s ReaderResume t"
inductive_cases proc_go_cases: "sys_step E s (ProcGo sel) t"
inductive_cases proc_resume_cases: "sys_step E s ProcResume t"
inductive_cases call_go_cases: "sys_step E s (CallGo a) t"
inductive_cases call_resume_cases: "sys_step E s (CallResume i) t"

lemmas sys_step_cases = reader_go_cases reader_resume_cases proc_go_cases proc_resume_cases
  call_go_cases call_resume_cases

inductive reaches :: "'w env \<Rightarrow> 'w sys \<Rightarrow> 'w sys \<Rightarrow> bool" for E where
  reaches_refl: "reaches E s s"
| reaches_step: "reaches E s t \<Longrightarrow> sys_step E t ev u \<Longrightarrow> reaches E s u"

lemma reaches_trans: "reaches E s t \<Longrightarrow> reaches E r s \<Longrightarrow> reaches E r t"
  by (induction rule: reaches.induct) (auto intro: reaches_step)

subsection \<open>The same steps as a function\<close>

definition put_reader :: "'w sys \<Rightarrow> 'w goroutine \<times> 'w conn \<Rightarrow> 'w sys" where
  "put_reader s x = s\<lparr>con := snd x, rd := fst x\<rparr>"

definition put_proc :: "'w sys \<Rightarrow> 'w goroutine \<times> 'w conn \<Rightarrow> 'w sys" where
  "put_proc s x = s\<lparr>con := snd x, pr := fst x\<rparr>"

fun fire_alive :: "'w env \<Rightarrow> event \<Rightarrow> 'w sys \<Rightarrow> 'w sys option" where
  "fire_alive E (ReaderGo pongs r) s = (case rd s of
       At ph po \<Rightarrow> Some (put_reader s (settle ph (reader_code E ph po pongs r (con s)))) | _ \<Rightarrow> None)"
| "fire_alive E ReaderResume s = (case rd s of
       Suspended ph guard k \<Rightarrow> if guard (con s) then Some (put_reader s (settle ph (k (con s)))) else None
     | _ \<Rightarrow> None)"
| "fire_alive E (ProcGo sel) s = (case pr s of
       At ph po \<Rightarrow> Some (put_proc s (settle ph (processor_code E ph po sel (con s)))) | _ \<Rightarrow> None)"
| "fire_alive E ProcResume s = (case pr s of
       Suspended ph guard k \<Rightarrow> if guard (con s) then Some (put_proc s (settle ph (k (con s)))) else None
     | _ \<Rightarrow> None)"
| "fire_alive E (CallGo a) s = (case settle Leaving (api_code E a (con s)) of (g, c) \<Rightarrow>
       Some (s\<lparr>con := c, cls := cls s @ [g]\<rparr>))"
| "fire_alive E (CallResume i) s = (if i < length (cls s) then (case cls s ! i of
       Suspended ph guard k \<Rightarrow> if guard (con s) then (case settle ph (k (con s)) of (g, c) \<Rightarrow>
           Some (s\<lparr>con := c, cls := (cls s)[i := g]\<rparr>)) else None
     | _ \<Rightarrow> None) else None)"

definition fire :: "'w env \<Rightarrow> event \<Rightarrow> 'w sys \<Rightarrow> 'w sys option" where
  "fire E ev s = (if alive s then fire_alive E ev s else None)"

fun fire_all :: "'w env \<Rightarrow> event list \<Rightarrow> 'w sys \<Rightarrow> 'w sys option" where
  "fire_all E [] s = Some s"
| "fire_all E (ev # evs) s = (case fire E ev s of None \<Rightarrow> None | Some t \<Rightarrow> fire_all E evs t)"

lemma sys_step_iff_fire: "sys_step E s ev t \<longleftrightarrow> fire E ev s = Some t"
proof
  show "sys_step E s ev t \<Longrightarrow> fire E ev s = Some t"
    by (induction rule: sys_step.induct) (auto simp: fire_def put_reader_def put_proc_def)
next
  assume f: "fire E ev s = Some t"
  then have a: "alive s" by (simp add: fire_def split: if_splits)
  show "sys_step E s ev t"
  proof (cases ev)
    case (ReaderGo pongs r)
    with f a show ?thesis
      by (auto simp: fire_def put_reader_def split: goroutine.splits intro!: reader_go)
  next
    case ReaderResume
    with f a show ?thesis
      by (auto simp: fire_def put_reader_def split: goroutine.splits if_splits intro!: reader_resume)
  next
    case (ProcGo sel)
    with f a show ?thesis
      by (auto simp: fire_def put_proc_def split: goroutine.splits intro!: proc_go)
  next
    case ProcResume
    with f a show ?thesis
      by (auto simp: fire_def put_proc_def split: goroutine.splits if_splits intro!: proc_resume)
  next
    case (CallGo b)
    with f a show ?thesis
      by (auto simp: fire_def split: prod.splits intro!: call_go)
  next
    case (CallResume i)
    with f a show ?thesis
      by (auto simp: fire_def split: goroutine.splits if_splits prod.splits intro!: call_resume)
  qed
qed

lemma fire_all_reaches: "fire_all E evs s = Some t \<Longrightarrow> reaches E r s \<Longrightarrow> reaches E r t"
  by (induction evs arbitrary: s)
    (auto split: option.splits simp: sys_step_iff_fire [symmetric] intro: reaches_step)

subsection \<open>How goroutines advance\<close>

text \<open>The phases in the order a goroutine goes through them.\<close>

fun phase_number :: "phase \<Rightarrow> nat" where
  "phase_number Starting = 0"
| "phase_number Looping = 1"
| "phase_number Leaving = 2"

lemma phase_number_inject: "phase_number p = phase_number q \<Longrightarrow> p = q"
  by (cases p; cases q) auto

instantiation phase :: linorder
begin

definition less_eq_phase :: "phase \<Rightarrow> phase \<Rightarrow> bool" where
  "less_eq_phase p q \<longleftrightarrow> phase_number p \<le> phase_number q"

definition less_phase :: "phase \<Rightarrow> phase \<Rightarrow> bool" where
  "less_phase p q \<longleftrightarrow> phase_number p < phase_number q"

instance
  by standard (auto simp: less_eq_phase_def less_phase_def dest: phase_number_inject)

end

fun phase_of :: "'w goroutine \<Rightarrow> phase option" where
  "phase_of (At ph po) = Some ph"
| "phase_of (Suspended ph g k) = Some ph"
| "phase_of Gone = None"
| "phase_of (Crashed p) = None"

text \<open>Running code of a phase never leads back to an earlier one.\<close>

lemma settle_advances:
  "settle ph m = (g, c) \<Longrightarrow> phase_of g = Some ph' \<Longrightarrow> ph \<le> ph'"
  by (induction ph m rule: settle.induct) (auto simp: less_eq_phase_def split: if_splits)

lemma phases_advance:
  assumes "sys_step E s ev t"
  shows "(phase_of (rd t) = Some p \<longrightarrow> (\<exists>q. phase_of (rd s) = Some q \<and> q \<le> p)) \<and>
    (phase_of (pr t) = Some p \<longrightarrow> (\<exists>q. phase_of (pr s) = Some q \<and> q \<le> p))"
  using assms by (induction rule: sys_step.induct) (auto dest!: settle_advances)

text \<open>A goroutine that has left its loop is never in it again.\<close>

lemma phases_never_go_back:
  assumes "reaches E s t" and "phase_of (pr t) = Some p"
  shows "\<exists>q. phase_of (pr s) = Some q \<and> q \<le> p"
  using assms
proof (induction arbitrary: p rule: reaches.induct)
  case (reaches_step s t ev u)
  then obtain q where "phase_of (pr t) = Some q" "q \<le> p"
    using phases_advance [of E t ev u p] by blast
  then show ?case using reaches_step.IH [of q] by (meson order_trans)
qed auto

text \<open>After an unrecovered panic nothing happens.\<close>

lemma dead_is_final:
  assumes "\<not> alive s"
  shows "{t. reaches E s t} = {s}"
proof -
  have "t = s" if "reaches E s t" for t
    using that assms
  proof (induction rule: reaches.induct)
    case (reaches_step s t ev u)
    then show ?case by (auto elim: sys_step.cases)
  qed simp
  then show ?thesis by (auto intro: reaches_refl)
qed

end
