(* ===== verification/SystemInvariants.thy ===== *)
theory SystemInvariants
  imports Interleaving
begin

text \<open>
  What holds in every interleaving of the goroutines of a connection: the channels stay
  within their capacity and are closed in order, nothing is sent after a close, messages are
  taken in the order they were sent, and no subscription is registered before the handshake
  was acknowledged.
\<close>

subsection \<open>Relations between the states of a connection\<close>

definition chan_step :: "'a chan \<Rightarrow> 'a chan \<Rightarrow> bool" where
  "chan_step a b \<longleftrightarrow> chan_cap b = chan_cap a \<and> (chan_ok a \<longrightarrow> chan_ok b) \<and>
     (chan_closed a \<longrightarrow> chan_closed b \<and> chan_history b = chan_history a) \<and>
     prefix (chan_history a) (chan_history b) \<and> prefix (chan_taken a) (chan_taken b)"

lemma chan_step_refl [simp]: "chan_step a a"
  by (simp add: chan_step_def)

lemma chan_step_trans: "chan_step a b \<Longrightarrow> chan_step b c \<Longrightarrow> chan_step a c"
  by (auto simp: chan_step_def intro: prefix_order.trans)

lemma chan_step_push: "can_send a \<Longrightarrow> \<not> chan_closed a \<Longrightarrow> chan_step a (chan_push m a)"
  by (auto simp: chan_step_def chan_ok_push)

lemma chan_step_close [simp]: "chan_step a (chan_close a)"
  by (simp add: chan_step_def chan_ok_close)

lemma chan_step_recv [simp]: "chan_step a (snd (chan_recv z a))"
  by (cases "chan_buf a") (auto simp: chan_step_def chan_ok_recv chan_recv_def chan_history_def
      chan_ok_def)

text \<open>The order in which \<open>close\<close> closes the channels.\<close>

definition close_order :: "'w conn \<Rightarrow> bool" where
  "close_order c \<longleftrightarrow> (chan_closed (c_incoming c) \<longrightarrow> chan_closed (c_outgoing c)) \<and>
     (chan_closed (c_outgoing c) \<longrightarrow> c_shutdown c)"

definition step_ok :: "'w conn \<Rightarrow> 'w conn \<Rightarrow> bool" where
  "step_ok s t \<longleftrightarrow> chan_step (c_outgoing s) (c_outgoing t) \<and> chan_step (c_incoming s) (c_incoming t) \<and>
     (c_shutdown s \<longrightarrow> c_shutdown t) \<and> (close_order s \<longrightarrow> close_order t) \<and>
     c_id t = c_id s \<and> c_Schema t = c_Schema s \<and> c_config t = c_config s"

text \<open>The acknowledgement has been sent.\<close>

definition acked :: "'w conn \<Rightarrow> bool" where
  "acked c \<longleftrightarrow> Msg gqlConnectionAck_message \<in> set (chan_history (c_outgoing c))"

text \<open>What goroutines other than \<open>processMessages\<close> do, and what \<open>processMessages\<close> does.\<close>

definition env_step :: "'w conn \<Rightarrow> 'w conn \<Rightarrow> bool" where
  "env_step s t \<longleftrightarrow> step_ok s t \<and> chan_taken (c_outgoing t) = chan_taken (c_outgoing s) \<and>
     chan_taken (c_incoming t) = chan_taken (c_incoming s) \<and> c_Subscriptions t = c_Subscriptions s \<and>
     (c_state t = connStateEstablished \<longrightarrow> c_state s = connStateEstablished)"

definition proc_step :: "'w conn \<Rightarrow> 'w conn \<Rightarrow> bool" where
  "proc_step s t \<longleftrightarrow> step_ok s t \<and> (c_Subscriptions t \<noteq> c_Subscriptions s \<longrightarrow> acked t)"

definition established_acked :: "'w conn \<Rightarrow> bool" where
  "established_acked c \<longleftrightarrow> (c_state c = connStateEstablished \<longrightarrow> acked c)"

lemma step_ok_refl [simp]: "step_ok s s"
  by (simp add: step_ok_def)

lemma step_ok_trans: "step_ok s t \<Longrightarrow> step_ok t u \<Longrightarrow> step_ok s u"
  unfolding step_ok_def by (auto intro: chan_step_trans)

lemma acked_step: "step_ok s t \<Longrightarrow> acked s \<Longrightarrow> acked t"
  by (auto simp: acked_def step_ok_def chan_step_def dest: set_mono_prefix)

lemma env_step_refl [simp]: "env_step s s"
  by (simp add: env_step_def)

lemma transp_env_step: "transp env_step"
  by (rule transpI) (auto simp: env_step_def intro: step_ok_trans)

lemma transp_step_ok: "transp step_ok"
  by (rule transpI) (rule step_ok_trans)

lemma proc_step_refl [simp]: "proc_step s s"
  by (simp add: proc_step_def)

lemma transp_proc_step: "transp proc_step"
proof (rule transpI)
  fix s t u :: "'a conn"
  assume st: "proc_step s t" and tu: "proc_step t u"
  have "acked u" if "c_Subscriptions u \<noteq> c_Subscriptions s"
  proof (cases "c_Subscriptions u = c_Subscriptions t")
    case True
    with that st have "acked t" by (auto simp: proc_step_def)
    then show ?thesis using tu by (auto simp: proc_step_def intro: acked_step)
  next
    case False
    with tu show ?thesis by (auto simp: proc_step_def)
  qed
  with st tu show "proc_step s u" by (auto simp: proc_step_def intro: step_ok_trans)
qed

lemma prim_env_step: "prim V s t \<Longrightarrow> env_step s t"
  by (induction rule: prim.induct)
    (auto simp: env_step_def step_ok_def close_order_def intro: chan_step_push)

lemma env_proc_step: "env_step s t \<Longrightarrow> proc_step s t"
  by (simp add: env_step_def proc_step_def)

lemma established_acked_env: "env_step s t \<Longrightarrow> established_acked s \<Longrightarrow> established_acked t"
  by (auto simp: established_acked_def env_step_def intro: acked_step)

lemma prim_proc_step: "prim V s t \<Longrightarrow> proc_step s t"
  by (rule env_proc_step [OF prim_env_step])

lemma env_step_simps:
  "env_step s t \<Longrightarrow> step_ok s t"
  "step_ok s t \<Longrightarrow> c_shutdown s \<Longrightarrow> c_shutdown t"
  by (simp_all add: env_step_def step_ok_def)

lemma step_ok_shutdown: "step_ok s t \<Longrightarrow> c_shutdown s \<Longrightarrow> c_shutdown t"
  by (simp add: step_ok_def)

lemma env_acked: "env_step s t \<Longrightarrow> acked s \<Longrightarrow> acked t"
  by (rule acked_step [OF env_step_simps(1)])

lemma initializing_env: "env_step s (s\<lparr>c_state := connStateInitializing\<rparr>)"
  by (simp add: env_step_def step_ok_def close_order_def)

lemma established_proc: "proc_step s (s\<lparr>c_state := connStateEstablished\<rparr>)"
  by (simp add: proc_step_def step_ok_def close_order_def)

lemma chan_recv_history [simp]: "chan_history (snd (chan_recv z ch)) = chan_history ch"
  by (cases "chan_buf ch") (auto simp: chan_recv_def chan_history_def)

lemma recv_proc:
  "proc_step s (s\<lparr>c_incoming := snd (chan_recv NilMsg (c_incoming s))\<rparr>)"
  "proc_step s (s\<lparr>c_outgoing := snd (chan_recv NilMsg (c_outgoing s))\<rparr>)"
  by (simp_all add: proc_step_def step_ok_def close_order_def)

lemma recv_established:
  "established_acked s \<Longrightarrow> established_acked (s\<lparr>c_incoming := snd (chan_recv NilMsg (c_incoming s))\<rparr>)"
  "established_acked s \<Longrightarrow> established_acked (s\<lparr>c_outgoing := snd (chan_recv NilMsg (c_outgoing s))\<rparr>)"
  by (simp_all add: established_acked_def acked_def)

lemma add_proc: "acked s \<Longrightarrow> proc_step s (addSubscription x s)"
  by (simp add: proc_step_def step_ok_def close_order_def acked_def addSubscription_def)

lemma acked_add: "acked s \<Longrightarrow> acked (addSubscription x s)"
  by (simp add: acked_def addSubscription_def)

lemma established_acked_D: "established_acked s \<Longrightarrow> c_state s = connStateEstablished \<Longrightarrow> acked s"
  by (simp add: established_acked_def)

lemma acked_established: "acked s \<Longrightarrow> established_acked s"
  by (simp add: established_acked_def)

lemma acked_ack:
  "acked (s\<lparr>c_outgoing := chan_push (Msg gqlConnectionAck_message) (c_outgoing s)\<rparr>)"
  by (simp add: acked_def)

text \<open>Nothing is assumed here of what handlers and libraries do outside the connection.\<close>

lemma any_world: "reflp (\<lambda>_ _. True)" "transp (\<lambda>_ _. True)"
  by (simp_all add: reflp_def transp_def)

lemma message_env:
  "\<not> chan_closed (c_incoming s) \<Longrightarrow> can_send (c_incoming s) \<Longrightarrow>
    env_step s (s\<lparr>c_incoming := chan_push m (c_incoming s)\<rparr>)"
  by (auto simp: env_step_def step_ok_def close_order_def intro: chan_step_push)

interpretation reader: reader_guarantee "\<lambda>_ _. True" E step_ok env_step "\<lambda>_. True" for E
  by unfold_locales
    (auto intro: any_world calls_ok_True transp_env_step prim_env_step env_step_simps initializing_env
      message_env)

interpretation between: conn_guarantee "\<lambda>_ _. True" E env_step proc_step established_acked for E
proof unfold_locales
  fix s t :: "'a conn"
  show "prim (\<lambda>_ _. True) s t \<Longrightarrow> established_acked s \<Longrightarrow> established_acked t"
    by (rule established_acked_env [OF prim_env_step])
  show "env_step s t \<Longrightarrow> c_shutdown s \<Longrightarrow> c_shutdown t"
    by (rule env_step_simps(2) [OF env_step_simps(1)])
qed (auto intro: any_world calls_ok_True transp_proc_step prim_proc_step established_acked_env)

interpretation processor:
  processor_guarantee "\<lambda>_ _. True" E env_step proc_step established_acked acked for E
proof unfold_locales
  fix s t :: "'a conn"
  show "prim (\<lambda>_ _. True) s t \<Longrightarrow> acked s \<Longrightarrow> acked t"
    by (rule env_acked [OF prim_env_step])
  show "established_acked s \<Longrightarrow> between.safe s (select_body E SelOutgoing s)"
    by (rule between.safe_outgoing) (auto intro: recv_proc recv_established)
qed (auto intro: any_world calls_ok_True transp_proc_step prim_proc_step established_acked_env
    env_acked established_proc recv_proc recv_established add_proc acked_add acked_ack
    established_acked_D acked_established)

interpretation leaving: conn_guarantee "\<lambda>_ _. True" E env_step proc_step "\<lambda>_. True" for E
  by unfold_locales
    (auto intro: any_world calls_ok_True transp_proc_step prim_proc_step env_step_simps)

subsection \<open>Goroutines and the system\<close>

text \<open>
  A goroutine that waits goes on safely from every state the others may bring about; between
  two turns of its loop \<open>J\<close> holds.
\<close>

fun thread_ok ::
  "('w conn \<Rightarrow> 'w conn \<Rightarrow> bool) \<Rightarrow> ('w conn \<Rightarrow> 'w conn \<Rightarrow> bool) \<Rightarrow> ('w conn \<Rightarrow> bool) \<Rightarrow>
    'w goroutine \<Rightarrow> 'w conn \<Rightarrow> bool" where
  "thread_ok R G J (At ph po) c = (ph \<noteq> Leaving \<longrightarrow> J c)"
| "thread_ok R G J (Suspended ph g k) c =
    (\<forall>t. R c t \<longrightarrow> g t \<longrightarrow> rg R G (\<lambda>b t. ph \<noteq> Leaving \<longrightarrow> J t) t (k t))"
| "thread_ok R G J Gone c = True"
| "thread_ok R G J (Crashed p) c = True"

lemma thread_ok_settle:
  assumes "rg R G (\<lambda>b t. ph \<noteq> Leaving \<longrightarrow> J t) s m" and "settle ph m = (g, c)"
  shows "G s c \<and> thread_ok R G J g c"
  using assms by (induction ph m rule: settle.induct) (auto split: if_splits)

lemma thread_ok_stable:
  assumes "transp R" and "\<And>s t. R s t \<Longrightarrow> J s \<Longrightarrow> J t"
    and "R c d" and "thread_ok R G J g c"
  shows "thread_ok R G J g d"
  using assms(4)
proof (cases g)
  case (Suspended ph w k)
  with assms(4) show ?thesis using transpD [OF assms(1,3)] by auto
qed (use assms in auto)

lemma thread_ok_resume:
  "thread_ok R G J (Suspended ph g k) c \<Longrightarrow> R c c \<Longrightarrow> g c \<Longrightarrow>
    rg R G (\<lambda>b t. ph \<noteq> Leaving \<longrightarrow> J t) c (k c)"
  by simp

text \<open>The code of each goroutine, from the guarantees of its operations.\<close>

abbreviation user_ok :: "'w goroutine \<Rightarrow> 'w conn \<Rightarrow> bool" where
  "user_ok \<equiv> thread_ok step_ok env_step (\<lambda>_. True)"

abbreviation processor_ok :: "'w goroutine \<Rightarrow> 'w conn \<Rightarrow> bool" where
  "processor_ok \<equiv> thread_ok env_step proc_step established_acked"

context conn_guarantee
begin

lemma safe_api_code: "J c \<Longrightarrow> safe c (api_code E a c)"
  by (cases a) (auto intro!: safe_andthen safe_Ret safe_Close safe_SendData safe_SendError
      safe_Subscription_SendData safe_AddHandler safe_RemoveHandler)

end

context reader_guarantee
begin

lemma safe_reader_code:
  assumes "\<And>t. J t"
  shows "safe c (reader_code E ph po pongs r c)"
  using assms
  by (cases ph) (auto simp: reader_code_def intro!: safe_readPump_start safe_readPump_body
      safe_andthen safe_exits safe_Ret)

end

context processor_guarantee
begin

lemma safe_processor_code:
  assumes "ph \<noteq> Leaving \<Longrightarrow> J c" and "ph = Leaving \<Longrightarrow> (\<And>t. J t)"
  shows "safe c (processor_code E ph po sel c)"
proof (cases ph)
  case Leaving
  with assms(2) show ?thesis
    by (auto simp: processor_code_def intro!: safe_andthen safe_exits safe_Ret)
qed (use assms(1) in \<open>auto simp: processor_code_def intro!: safe_processMessages_start
    safe_processMessages_body\<close>)

end

lemma reader_code_ok: "rg step_ok env_step (\<lambda>b t. ph \<noteq> Leaving \<longrightarrow> True) c (reader_code E ph po pongs r c)"
  using reader.safe_reader_code [of c E ph po pongs r] by (simp add: reader.safe_def)

lemma api_code_ok: "rg step_ok env_step (\<lambda>b t. ph \<noteq> Leaving \<longrightarrow> True) c (api_code E a c)"
  using reader.safe_api_code [of c E a] by (simp add: reader.safe_def)

lemma processor_code_ok:
  assumes "ph \<noteq> Leaving \<longrightarrow> established_acked c"
  shows "rg env_step proc_step (\<lambda>b t. ph \<noteq> Leaving \<longrightarrow> established_acked t) c
    (processor_code E ph po sel c)"
proof (cases "ph = Leaving")
  case True
  have "leaving.safe c (processor_code E Leaving po sel c)"
    by (auto simp: processor_code_def intro!: leaving.safe_andthen leaving.safe_exits leaving.safe_Ret)
  with True show ?thesis by (simp add: leaving.safe_def)
next
  case False
  with assms show ?thesis
    using processor.safe_processor_code [of ph c E po sel] by (simp add: between.safe_def)
qed

text \<open>
  What the code of the goroutines guarantees holds of every step of the system: the rely
  conditions \<open>R\<close> (of the reader and of callers) and \<open>P\<close> (of \<open>processMessages\<close>), the guarantees \<open>G\<close>
  and \<open>Q\<close>, and \<open>J\<close> between two turns of \<open>processMessages\<close>.
\<close>

definition of_processor :: "event \<Rightarrow> bool" where
  "of_processor ev \<longleftrightarrow> (\<exists>sel. ev = ProcGo sel) \<or> ev = ProcResume"

lemma of_processor_simps [simp]:
  "of_processor (ProcGo sel)" "of_processor ProcResume" "\<not> of_processor (ReaderGo pongs r)"
  "\<not> of_processor ReaderResume" "\<not> of_processor (CallGo a)" "\<not> of_processor (CallResume i)"
  by (simp_all add: of_processor_def)

locale goroutine_contract =
  fixes E :: "'w env" and R G P Q :: "'w conn \<Rightarrow> 'w conn \<Rightarrow> bool" and J :: "'w conn \<Rightarrow> bool"
  assumes R_order: "transp R" "R c c" and P_order: "transp P" "P c c"
    and P_J: "P s t \<Longrightarrow> J s \<Longrightarrow> J t"
    and reader_ok: "rg R G (\<lambda>b t. ph \<noteq> Leaving \<longrightarrow> True) c (reader_code E ph po pongs r c)"
    and api_ok: "rg R G (\<lambda>b t. ph \<noteq> Leaving \<longrightarrow> True) c (api_code E a c)"
    and processor_ok: "(ph \<noteq> Leaving \<longrightarrow> J c) \<Longrightarrow>
      rg P Q (\<lambda>b t. ph \<noteq> Leaving \<longrightarrow> J t) c (processor_code E ph po sel c)"
begin

abbreviation user :: "'w goroutine \<Rightarrow> 'w conn \<Rightarrow> bool" where
  "user \<equiv> thread_ok R G (\<lambda>_. True)"

definition threads_ok :: "'w sys \<Rightarrow> bool" where
  "threads_ok s \<longleftrightarrow> user (rd s) (con s) \<and> thread_ok P Q J (pr s) (con s) \<and>
     (\<forall>g \<in> set (cls s). user g (con s))"

lemma user_stable: "R c d \<Longrightarrow> user g c \<Longrightarrow> user g d"
  by (rule thread_ok_stable [OF R_order(1)])

lemma processor_stable: "P c d \<Longrightarrow> thread_ok P Q J g c \<Longrightarrow> thread_ok P Q J g d"
  by (rule thread_ok_stable [OF P_order(1) P_J])

lemma user_run:
  "rg R G (\<lambda>b t. ph \<noteq> Leaving \<longrightarrow> True) c m \<Longrightarrow> settle ph m = (g, d) \<Longrightarrow> G c d \<and> user g d"
  "user (Suspended ph w k) c \<Longrightarrow> w c \<Longrightarrow> settle ph (k c) = (g, d) \<Longrightarrow> G c d \<and> user g d"
  using thread_ok_settle [where ph = ph and R = R and G = G and J = "\<lambda>_. True" and s = c] R_order(2) [of c] by auto

lemma processor_run:
  "(ph \<noteq> Leaving \<longrightarrow> J c) \<Longrightarrow> settle ph (processor_code E ph po sel c) = (g, d) \<Longrightarrow>
    Q c d \<and> thread_ok P Q J g d"
  "thread_ok P Q J (Suspended ph w k) c \<Longrightarrow> w c \<Longrightarrow> settle ph (k c) = (g, d) \<Longrightarrow>
    Q c d \<and> thread_ok P Q J g d"
  using thread_ok_settle [where ph = ph and R = P and G = Q and J = J and s = c] processor_ok [of ph c po sel] P_order(2) [of c] by auto

lemma step_guarantee:
  assumes "sys_step E s ev t" and "threads_ok s"
  shows "(if of_processor ev then Q (con s) (con t) else G (con s) (con t) \<and> pr t = pr s) \<and>
    (R (con s) (con t) \<longrightarrow> (of_processor ev \<or> P (con s) (con t)) \<longrightarrow> threads_ok t)"
  using assms
proof (induction rule: sys_step.induct)
  case (reader_go s ph po pongs r g c)
  with user_run(1) [OF reader_ok] user_stable processor_stable show ?case
    by (auto simp: threads_ok_def)
next
  case (reader_resume s ph guard k g c)
  with user_run(2) [of ph guard k "con s" g c] user_stable processor_stable show ?case
    by (auto simp: threads_ok_def)
next
  case (proc_go s ph po sel g c)
  with processor_run(1) [of ph "con s" po sel g c] user_stable show ?case
    by (auto simp: threads_ok_def)
next
  case (proc_resume s ph guard k g c)
  with processor_run(2) [of ph guard k "con s" g c] user_stable show ?case
    by (auto simp: threads_ok_def)
next
  case (call_go s a g c)
  with user_run(1) [OF api_ok] user_stable processor_stable show ?case
    by (auto simp: threads_ok_def)
next
  case (call_resume s i ph guard k g c)
  then have "user (Suspended ph guard k) (con s)" by (metis nth_mem threads_ok_def)
  with call_resume user_run(2) [of ph guard k "con s" g c] user_stable processor_stable show ?case
    by (auto simp: threads_ok_def dest!: subsetD [OF set_update_subset_insert])
qed

lemma threads_ok_moved:
  "threads_ok s \<Longrightarrow> R (con s) c \<Longrightarrow> P (con s) c \<Longrightarrow> threads_ok (s\<lparr>con := c\<rparr>)"
  using user_stable processor_stable by (auto simp: threads_ok_def)

lemma threads_ok_start: "J c \<Longrightarrow> threads_ok (start_sys c)"
  by (simp add: threads_ok_def start_sys_def)

end

interpretation contract: goroutine_contract E step_ok env_step env_step proc_step established_acked for E
  by unfold_locales (auto intro: transp_step_ok transp_env_step established_acked_env
    reader_code_ok [simplified] api_code_ok [simplified] processor_code_ok)

definition conn_ok :: "'w conn \<Rightarrow> bool" where
  "conn_ok c \<longleftrightarrow> chan_ok (c_outgoing c) \<and> chan_cap (c_outgoing c) = 10 \<and>
     chan_ok (c_incoming c) \<and> chan_cap (c_incoming c) = 10 \<and> close_order c \<and>
     (c_Subscriptions c \<noteq> Map.empty \<longrightarrow> acked c)"

definition sys_ok :: "'w sys \<Rightarrow> bool" where
  "sys_ok s \<longleftrightarrow> conn_ok (con s) \<and> user_ok (rd s) (con s) \<and> processor_ok (pr s) (con s) \<and>
     (\<forall>g \<in> set (cls s). user_ok g (con s))"

lemma conn_ok_step: "proc_step s t \<Longrightarrow> conn_ok s \<Longrightarrow> conn_ok t"
  by (cases "c_Subscriptions t = c_Subscriptions s")
    (auto simp: conn_ok_def proc_step_def step_ok_def chan_step_def intro: acked_step)

lemma user_ok_stable: "step_ok c d \<Longrightarrow> user_ok g c \<Longrightarrow> user_ok g d"
  by (rule thread_ok_stable [OF transp_step_ok])

lemma processor_ok_stable: "env_step c d \<Longrightarrow> processor_ok g c \<Longrightarrow> processor_ok g d"
  by (rule thread_ok_stable [OF transp_env_step established_acked_env])

lemma sys_ok_threads: "sys_ok s \<longleftrightarrow> conn_ok (con s) \<and> contract.threads_ok s"
  by (simp add: sys_ok_def contract.threads_ok_def)

lemma env_moves:
  assumes "sys_ok s" and "env_step (con s) c"
  shows "conn_ok c \<and> user_ok (rd s) c \<and> processor_ok (pr s) c \<and> (\<forall>g \<in> set (cls s). user_ok g c)"
  using assms user_ok_stable [OF env_step_simps(1) [OF assms(2)]]
    processor_ok_stable [OF assms(2)] conn_ok_step [OF env_proc_step [OF assms(2)]]
  by (auto simp: sys_ok_def)

lemma sys_ok_step:
  assumes "sys_step E s ev t" and "sys_ok s"
  shows "sys_ok t \<and> proc_step (con s) (con t)"
proof -
  have "proc_step (con s) (con t)" "of_processor ev \<or> env_step (con s) (con t)"
    using contract.step_guarantee [OF assms(1)] assms(2)
    by (auto simp: sys_ok_threads env_proc_step split: if_splits)
  then show ?thesis
    using contract.step_guarantee [OF assms(1)] assms(2) conn_ok_step
    by (auto simp: sys_ok_threads proc_step_def)
qed

lemma sys_ok_start: "sys_ok (start_sys (snd (NewConn schema config n w)))"
  by (simp add: sys_ok_def start_sys_def NewConn_def conn_ok_def close_order_def
      established_acked_def make_chan_def chan_ok_def)

lemma sys_ok_reaches:
  assumes "reaches E s t" and "sys_ok s"
  shows "sys_ok t \<and> proc_step (con s) (con t)"
  using assms
proof (induction rule: reaches.induct)
  case (reaches_step s t ev u)
  then show ?case using sys_ok_step [of E t ev u] transpD [OF transp_proc_step] by blast
qed simp

text \<open>The states a new connection can get into.\<close>

definition reachable :: "'w env \<Rightarrow> 'w sys \<Rightarrow> bool" where
  "reachable E s \<longleftrightarrow> (\<exists>schema config n w. reaches E (start_sys (snd (NewConn schema config n w))) s)"

lemma reachable_ok: "reachable E s \<Longrightarrow> sys_ok s"
  by (auto simp: reachable_def dest: sys_ok_reaches [OF _ sys_ok_start])

text \<open>Only the processing goroutine does more than \<open>env_step\<close> allows.\<close>

lemma sys_step_env:
  assumes "sys_step E s ev t" and "sys_ok s"
  shows "env_step (con s) (con t) \<and> pr t = pr s \<or> (\<exists>sel. ev = ProcGo sel) \<or> ev = ProcResume"
  using contract.step_guarantee [OF assms(1)] assms(2)
  by (auto simp: sys_ok_threads of_processor_def split: if_splits)

text \<open>A full open queue stays full: only the processing goroutine takes from it.\<close>

lemma env_step_full:
  assumes "env_step c d" and "chan_ok (c_incoming d)" and "chan_cap (c_incoming d) = 10"
    and "length (chan_buf (c_incoming c)) = 10"
  shows "length (chan_buf (c_incoming d)) = 10"
proof -
  have "length (chan_history (c_incoming c)) \<le> length (chan_history (c_incoming d))"
    using assms(1) by (auto simp: env_step_def step_ok_def chan_step_def dest: prefix_length_le)
  moreover have "length (chan_taken (c_incoming d)) = length (chan_taken (c_incoming c))"
    using assms(1) by (simp add: env_step_def)
  ultimately show ?thesis
    using assms by (simp add: chan_ok_def chan_history_def)
qed

end
