(* ===== verification/MessageProperties.thy ===== *)
theory MessageProperties
  imports Processing
begin

text \<open>
  What the message handlers of theory \<open>Processing\<close> guarantee, run without interference: the
  handshake, starting and stopping subscriptions, terminating, reading and writing.
\<close>

subsection \<open>The handshake\<close>

lemma run_process_init:
  assumes "open_conn c"
  shows "run (process_init E m c) =
    (case init_verdict E m c of
       (Inl p, w) \<Rightarrow> Panicked p (c\<lparr>c_world := w\<rparr>)
     | (Inr (Returned err), w) \<Rightarrow>
         (case init_reply (Return err) (c\<lparr>c_hlock := True, c_world := w\<rparr>) of
            Done u c' \<Rightarrow> run (send_in operationMessageEOF (c'\<lparr>c_hlock := False\<rparr>))
          | Panicked p c' \<Rightarrow> Panicked p (c'\<lparr>c_hlock := False\<rparr>)
          | Stuck g c' \<Rightarrow> Stuck g c')
     | (Inr e, w) \<Rightarrow>
         run (send_out (Msg gqlConnectionAck_message)
           (c\<lparr>c_world := w, c_state := connStateEstablished\<rparr>)))"
proof -
  have upd: "c\<lparr>c_hlock := True, c_world := w, c_hlock := False\<rparr> = c\<lparr>c_world := w\<rparr>" for w
    using open_connD(8) [OF assms] by (cases c) simp
  have idle: "idle (c\<lparr>c_world := w\<rparr>)" for w
    using open_connD(1) [OF assms] by (simp add: idle_def)
  show ?thesis
    using open_connD [OF assms] idle
    by (auto simp: process_init_def lockHandlers_def run_simps run_init_loop init_verdict_def
        init_reply_def unlock_handlers_def upd
        split: prod.splits sum.splits loop_end.splits outcome.splits)
qed

lemma run_init_accepted:
  assumes "open_conn c" and "msg_Type m = ''connection_init''"
    and "init_verdict E m c = (Inr e, w)" and "\<not> cut_short e"
    and "has_room (c_outgoing c)"
  shows "run (processIncomeMessage E (Msg m) c) = Done () (c\<lparr>c_world := w,
    c_state := connStateEstablished,
    c_outgoing := chan_push (Msg \<lparr>msg_ID = '''', msg_Type = ''connection_ack'', msg_Payload = None\<rparr>)
      (c_outgoing c)\<rparr>)"
  using assms open_connD [OF assms(1)]
  by (cases e)
    (simp_all add: processIncomeMessage_cases run_process_init run_simps gqlConnectionAck_message_def
      zero_OperationMessage_def gql_type_defs)

text \<open>
  C15: a \<open>connection_init\<close> no handler rejects makes the connection established and queues
  exactly one \<open>connection_ack\<close> behind what was already queued; nothing else of the
  connection changes.
\<close>

theorem init_accepted:
  assumes "open_conn c" and "msg_Type m = ''connection_init''"
    and "init_verdict E m c = (Inr e, w)" and "\<not> cut_short e"
    and "has_room (c_outgoing c)"
  shows "run (processIncomeMessage E (Msg m) c) = Done () (c\<lparr>c_world := w,
    c_state := connStateEstablished,
    c_outgoing := chan_push (Msg \<lparr>msg_ID = '''', msg_Type = ''connection_ack'', msg_Payload = None\<rparr>)
      (c_outgoing c)\<rparr>)"
  using assms by (rule run_init_accepted)

definition init_msg :: OperationMessage where
  "init_msg = \<lparr>msg_ID = '''', msg_Type = ''connection_init'', msg_Payload = None\<rparr>"

definition conn_with :: "ConnState \<Rightarrow> handler list \<Rightarrow> string list conn" where
  "conn_with st hs = (demo_conn hs)\<lparr>c_state := st\<rparr>"

abbreviation demo :: "string list env" where "demo \<equiv> demo_env demo_impls"

lemma open_conn_with: "st \<noteq> connStateClosed \<Longrightarrow> open_conn (conn_with st hs)"
  using open_demo_conn [of hs] by (simp add: conn_with_def open_conn_def idle_def)

lemma conn_with_simps [simp]:
  "c_state (conn_with st hs) = st" "c_Handlers (conn_with st hs) = hs"
  "c_world (conn_with st hs) = []" "c_outgoing (conn_with st hs) = make_chan 10"
  "c_incoming (conn_with st hs) = make_chan 10" "c_Schema (conn_with st hs) = Some 0"
  "c_config (conn_with st hs) = demo_config" "c_id (conn_with st hs) = 1"
  "c_Subscriptions (conn_with st hs) = Map.empty"
  by (simp_all add: conn_with_def demo_conn_def NewConn_def)

lemma has_room_make_chan [simp]: "has_room (make_chan n) = (0 < n)"
  by (simp add: has_room_def)

theorem init_accepted_witness:
  "c_state (outcome_state (run (processIncomeMessage demo (Msg init_msg)
     (conn_with connStateInitializing [HObj 3])))) = connStateEstablished"
proof -
  let ?c = "conn_with connStateInitializing [HObj 3]"
  have v: "init_verdict demo init_msg ?c = (Inr Completed, [''init''])"
    by (simp add: init_verdict_def handler_call_def demo_env_def demo_impls_def)
  have o: "open_conn ?c" by (rule open_conn_with) simp
  show ?thesis
    using init_accepted [OF o _ v] by (simp add: init_msg_def)
qed

lemma run_init_rejected:
  assumes "open_conn c" and "msg_Type m = ''connection_init''"
    and "init_verdict E m c = (Inr (Returned err), w)"
    and "has_room (c_outgoing c)" and "has_room (c_incoming c)"
  shows "run (processIncomeMessage E (Msg m) c) = Done () (c\<lparr>c_world := w,
    c_outgoing := (if is_handler_err err then c_outgoing c
      else chan_push (Msg \<lparr>msg_ID = '''', msg_Type = ''connection_error'',
        msg_Payload = Some (JStr (json_text (err_text err)))\<rparr>) (c_outgoing c)),
    c_incoming := chan_push operationMessageEOF (c_incoming c)\<rparr>)"
  using assms open_connD [OF assms(1)]
  by (cases c)
    (simp add: processIncomeMessage_cases run_process_init init_reply_def run_sendConnectionError
      has_room_def run_simps can_send_def)

text \<open>
  C16: a \<open>connection_init\<close> that a handler rejects leaves the state of the connection as it
  was and queues no acknowledgement; the processing goroutine is sent the end-of-file
  message, and the client is sent a \<open>connection_error\<close> with the error's text, but only if
  the error is not a \<open>HandlerError\<close>.
\<close>

theorem init_rejected:
  assumes "open_conn c" and "msg_Type m = ''connection_init''"
    and "init_verdict E m c = (Inr (Returned err), w)"
    and "has_room (c_outgoing c)" and "has_room (c_incoming c)"
  shows "run (processIncomeMessage E (Msg m) c) = Done () (c\<lparr>c_world := w,
    c_outgoing := (if is_handler_err err then c_outgoing c
      else chan_push (Msg \<lparr>msg_ID = '''', msg_Type = ''connection_error'',
        msg_Payload = Some (JStr (json_text (err_text err)))\<rparr>) (c_outgoing c)),
    c_incoming := chan_push operationMessageEOF (c_incoming c)\<rparr>)"
  using assms by (rule run_init_rejected)

theorem init_rejected_witness:
  "chan_buf (c_outgoing (outcome_state (run (processIncomeMessage demo (Msg init_msg)
     (conn_with connStateInitializing [HObj 4]))))) =
   [Msg \<lparr>msg_ID = '''', msg_Type = ''connection_error'', msg_Payload = Some (JStr ''denied'')\<rparr>]"
proof -
  let ?c = "conn_with connStateInitializing [HObj 4]"
  have v: "init_verdict demo init_msg ?c = (Inr (Returned (ErrNew ''denied'')), [])"
    by (simp add: init_verdict_def handler_call_def demo_env_def demo_impls_def)
  have o: "open_conn ?c" by (rule open_conn_with) simp
  show ?thesis
    using init_rejected [OF o _ v] by (simp add: init_msg_def)
qed

text \<open>
  A \<open>ConnectionInitHandler\<close> that returns a \<open>HandlerError\<close> with the propagation stopped
  ends the loop as an acceptance, also when it did not prevent the default: whatever the
  handlers after it would say, the connection is established and acknowledged.
\<close>

lemma init_stop_propagation_accepts:
  assumes "open_conn c" and "msg_Type m = ''connection_init''"
    and "c_Handlers c = HObj n # hs"
    and "HandleConnectionInit (impls E n) = Some h"
    and "h \<lparr>init_Payload = msg_Payload m\<rparr> (c_world c) = (Returns (Some (HandlerErr (Some he))), w)"
    and "propagationStopped he" and "has_room (c_outgoing c)"
  shows "run (processIncomeMessage E (Msg m) c) = Done () (c\<lparr>c_world := w,
    c_state := connStateEstablished,
    c_outgoing := chan_push (Msg gqlConnectionAck_message) (c_outgoing c)\<rparr>)"
proof -
  have "init_verdict E m c = (Inr Broken, w)"
    using assms(3-6) by (simp add: init_verdict_def handler_call_def)
  then show ?thesis
    using assms open_connD [OF assms(1)]
    by (simp add: processIncomeMessage_cases run_process_init run_simps)
qed

lemma init_stop_propagation_accepts_witness:
  "c_state (outcome_state (run (processIncomeMessage demo (Msg init_msg)
     (conn_with connStateInitializing [HObj 5, HObj 4])))) = connStateEstablished"
proof -
  let ?c = "conn_with connStateInitializing [HObj 5, HObj 4]"
  have o: "open_conn ?c" by (rule open_conn_with) simp
  show ?thesis
    using init_stop_propagation_accepts [OF o, of init_msg 5 "[HObj 4]" demo
        "\<lambda>a w. (Returns (Some (HandlerErr (Some (StopPropagation new_HandlerError)))), w)"
        "StopPropagation new_HandlerError" "[]"]
    by (simp add: init_msg_def demo_env_def demo_impls_def StopPropagation_def)
qed

text \<open>
  A \<open>start\<close> before the handshake is answered by a panic, which the unwinding of
  \<open>processMessages\<close> contains: the connection is closed completely, the
  \<open>SystemRecoverHandler\<close>s are told, and the goroutine returns without the panic.
\<close>

lemma start_before_handshake_closes:
  assumes "open_conn c" and "msg_Type m = ''start''" and "c_state c \<noteq> connStateEstablished"
    and "closed_by E c = (Inr e, w)" and "\<not> cut_short e"
    and "ws_Close E w = (r, w')"
    and "loop_spec (handler_call HandlePanic (Write, PErr ErrConnectionNotFullyEstablished) E)
      (until_propagation_stopped :: unit reaction) (c_Handlers c) w' = (Inr e', w'')"
  shows "run (processIncomeMessage E (Msg m) c) = Panicked (PErr ErrConnectionNotFullyEstablished) c \<and>
    run (processMessages_exit E (Some (PErr ErrConnectionNotFullyEstablished)) c) =
      Done () (closed_conn w'' c)"
proof
  show "run (processIncomeMessage E (Msg m) c) = Panicked (PErr ErrConnectionNotFullyEstablished) c"
    using assms(2,3) open_connD [OF assms(1)]
    by (simp add: processIncomeMessage_cases process_start_def run_simps)
  have "run (close E c) = Done r (closed_conn w' c)"
    using assms(4-6) by (cases e) (simp_all add: run_close_open [OF assms(1)])
  moreover have "idle (closed_conn w' c)"
    using open_connD(1) [OF assms(1)] by (simp add: closed_conn_def idle_def)
  ultimately show "run (processMessages_exit E (Some (PErr ErrConnectionNotFullyEstablished)) c) =
      Done () (closed_conn w'' c)"
    using assms(7)
    by (simp add: processMessages_exit_def run_simps run_recover)
      (simp add: closed_conn_def)
qed

definition start_msg :: OperationMessage where
  "start_msg = \<lparr>msg_ID = ''7'', msg_Type = ''start'',
     msg_Payload = Some (JObj [(''query'', JStr ''q'')])\<rparr>"

lemma start_before_handshake_closes_witness:
  "run (processMessages_exit demo (Some (PErr ErrConnectionNotFullyEstablished))
     (conn_with connStateInitializing [HObj 0, HObj 8])) =
   Done () (closed_conn [''bye'', ''close'', ''panic'']
     (conn_with connStateInitializing [HObj 0, HObj 8]))"
proof -
  let ?c = "conn_with connStateInitializing [HObj 0, HObj 8]"
  have o: "open_conn ?c" by (rule open_conn_with) simp
  have cb: "closed_by demo ?c = (Inr Completed, [''bye''])"
    by (simp add: closed_by_def handler_call_def demo_env_def demo_impls_def)
  show ?thesis
    using start_before_handshake_closes [OF o _ _ cb, of start_msg None "[''bye'', ''close'']"
        Completed "[''bye'', ''close'', ''panic'']"]
    by (simp add: start_msg_def handler_call_def demo_env_def demo_impls_def note_event_def)
qed

subsection \<open>Starting subscriptions\<close>

text \<open>
  C17: on an established connection, a \<open>start\<close> whose payload decodes, whose query passes
  validation, parsing and the schema check, and during which no handler panics, registers
  exactly that subscription under the message's id (replacing one of the same id, keeping
  all others), with the fields of its document, so that it matches the fields the
  document's subscription operations select.
\<close>

theorem start_registers_subscription:
  assumes "idle c" and "c_state c = connStateEstablished" and "msg_Type m = ''start''"
    and "decode_GQLObject (msg_Payload m) = Inr payload"
    and "start_calls E \<lparr>start_ID = msg_ID m, start_Payload = payload\<rparr> c = (None, w)"
    and "accepted_subscription E \<lparr>start_ID = msg_ID m, start_Payload = payload\<rparr> c = Some s"
    and "announced E s c w = (Inr e, w')"
  shows "run (processIncomeMessage E (Msg m) c) = Done () ((addSubscription s c)\<lparr>c_world := w'\<rparr>) \<and>
    map_load (c_Subscriptions (addSubscription s c)) k =
      (if k = msg_ID m then Some s else map_load (c_Subscriptions c) k) \<and>
    (\<exists>doc. gq_Parse E (obj_Query payload) = Inr doc \<and>
      (MatchesField s f \<longleftrightarrow> f \<in> set (SubscriptionFieldNamesFromDocument doc)))"
proof (intro conjI)
  show "run (processIncomeMessage E (Msg m) c) = Done () ((addSubscription s c)\<lparr>c_world := w'\<rparr>)"
    using assms by (simp add: processIncomeMessage_cases process_start_def run_simps idle_def
        run_gqlStart)
  have "sub_ID s = msg_ID m"
    using assms(6) by (auto simp: accepted_subscription_def split: if_splits sum.splits)
  then show "map_load (c_Subscriptions (addSubscription s c)) k =
      (if k = msg_ID m then Some s else map_load (c_Subscriptions c) k)"
    using subscriptions.load_store [of s c k] by simp
  show "\<exists>doc. gq_Parse E (obj_Query payload) = Inr doc \<and>
      (MatchesField s f \<longleftrightarrow> f \<in> set (SubscriptionFieldNamesFromDocument doc))"
    using assms(6)
    by (auto simp: accepted_subscription_def MatchesField_iff split: if_splits sum.splits)
qed

lemma decode_start_msg:
  "decode_GQLObject (msg_Payload start_msg) =
   Inr \<lparr>obj_Query = ''q'', obj_Variables = None, obj_OperationName = ''''\<rparr>"
  by (simp add: decode_GQLObject_def decode_payload_def decode_struct_def start_msg_def
      GQLObject_field_def zero_GQLObject_def)

definition demo_start :: GQLStart where
  "demo_start = \<lparr>start_ID = ''7'',
     start_Payload = \<lparr>obj_Query = ''q'', obj_Variables = None, obj_OperationName = ''''\<rparr>\<rparr>"

definition demo_subscription :: Subscription where
  "demo_subscription = \<lparr>sub_ID = ''7'', sub_Query = ''q'', sub_Variables = None,
     sub_OperationName = '''', sub_Document = Some example_document,
     sub_Fields = SubscriptionFieldNamesFromDocument example_document,
     sub_Schema = Some 0, sub_Connection = Some 1\<rparr>"

lemma accepted_demo:
  "accepted_subscription demo demo_start (conn_with st hs) = Some demo_subscription"
  by (simp add: accepted_subscription_def demo_start_def demo_env_def demo_subscription_def
      new_subscription_def)

theorem start_registers_subscription_witness:
  "c_Subscriptions (outcome_state (run (processIncomeMessage demo (Msg start_msg)
     (conn_with connStateEstablished [HObj 9])))) ''7'' = Some demo_subscription"
proof -
  let ?c = "conn_with connStateEstablished [HObj 9]"
  have o: "idle ?c" by (rule open_connD(1)) (rule open_conn_with, simp)
  have st: "\<lparr>start_ID = msg_ID start_msg,
      start_Payload = \<lparr>obj_Query = ''q'', obj_Variables = None, obj_OperationName = ''''\<rparr>\<rparr> = demo_start"
    by (simp add: start_msg_def demo_start_def)
  have calls: "start_calls demo demo_start ?c = (None, [])"
    by (simp add: start_calls_def handler_call_def demo_env_def demo_impls_def)
  have ann: "announced demo demo_subscription ?c [] = (Inr Completed, [''sub''])"
    by (simp add: announced_def handler_call_def demo_env_def demo_impls_def)
  have ty: "msg_Type start_msg = ''start''" by (simp add: start_msg_def)
  have reg: "c_state ?c = connStateEstablished" by simp
  show ?thesis
    using start_registers_subscription [OF o reg ty decode_start_msg, unfolded st,
        OF calls accepted_demo ann, of "''7''"]
    by (simp add: map_load_def start_msg_def)
qed

text \<open>
  A start without an id or a query, with a query that does not parse, or with a document
  that is not valid for the schema, is dropped: after the connection handlers have been told, no
  subscription is registered and no message, not even an error, is queued for the client.
\<close>

lemma start_rejected_silently:
  assumes "start_calls E start c = (None, w)"
    and "start_ID start = '''' \<or> obj_Query (start_Payload start) = '''' \<or>
      (\<exists>err. gq_Parse E (obj_Query (start_Payload start)) = Inl err) \<or>
      (\<exists>doc. gq_Parse E (obj_Query (start_Payload start)) = Inr doc \<and> \<not> gq_IsValid E (c_Schema c) doc)"
  shows "run (gqlStart E start c) = Done () (c\<lparr>c_world := w\<rparr>)"
proof -
  have "accepted_subscription E start c = None"
    using assms(2) by (auto simp: accepted_subscription_def)
  then show ?thesis using assms(1) by (simp add: run_gqlStart)
qed

lemma start_rejected_silently_witness:
  "run (gqlStart demo (demo_start\<lparr>start_ID := ''''\<rparr>) (conn_with connStateEstablished [HObj 6])) =
   Done () ((conn_with connStateEstablished [HObj 6])\<lparr>c_world := [''start'']\<rparr>)"
proof -
  have "start_calls demo (demo_start\<lparr>start_ID := ''''\<rparr>) (conn_with connStateEstablished [HObj 6]) =
      (None, [''start''])"
    by (simp add: start_calls_def handler_call_def demo_env_def demo_impls_def)
  from start_rejected_silently [OF this] show ?thesis by simp
qed

text \<open>
  The errors that \<open>ConnectionStartHandler\<close>s return are lost.  The loop that should
  collect them never does, no error message is ever queued by a start, and a start that a
  handler objected to is registered like any other.
\<close>

lemma start_handler_errors_are_lost:
  assumes "run (connection_start_errors E start (c_Handlers c) [] c) = Done errs c'"
  shows "errs = [] \<and> c_outgoing (outcome_state (run (gqlStart E start c))) = c_outgoing c \<and>
    (\<forall>s \<in> set_option (accepted_subscription E start c).
       c_Subscriptions (outcome_state (run (gqlStart E start c))) (start_ID start) = Some s)"
proof -
  obtain w where calls: "start_calls E start c = (None, w)" and "errs = []"
    using assms
    by (auto simp: connection_start_errors_empty start_calls_def split: prod.splits option.splits)
  moreover have "sub_ID s = start_ID start" if "accepted_subscription E start c = Some s" for s
    using that by (auto simp: accepted_subscription_def split: if_splits sum.splits)
  ultimately show ?thesis
    by (auto simp: run_gqlStart addSubscription_def map_store_def
        split: option.splits prod.splits sum.splits)
qed

lemma start_handler_errors_are_lost_witness:
  "c_Subscriptions (outcome_state (run (gqlStart demo demo_start
     (conn_with connStateEstablished [HObj 6])))) ''7'' = Some demo_subscription \<and>
   chan_buf (c_outgoing (outcome_state (run (gqlStart demo demo_start
     (conn_with connStateEstablished [HObj 6]))))) = []"
proof -
  let ?c = "conn_with connStateEstablished [HObj 6]"
  have "run (connection_start_errors demo demo_start (c_Handlers ?c) [] ?c) =
      Done [] (?c\<lparr>c_world := [''start'']\<rparr>)"
    by (simp add: connection_start_errors_empty handler_call_def demo_env_def demo_impls_def)
  from start_handler_errors_are_lost [OF this] show ?thesis
    by (simp add: accepted_demo) (simp add: demo_start_def)
qed

text \<open>
  Errors made by \<open>errors.New\<close> that are reported for an operation reach the client without
  their texts: the payload of the queued error message is a list of as many empty objects.
\<close>

lemma operation_errors_lose_their_texts:
  assumes "open_conn c" and "has_room (c_outgoing c)"
  shows "run (sendOperationErrors E i (map ErrNew texts) c) = Done None (c\<lparr>c_outgoing :=
    chan_push (Msg \<lparr>msg_ID = i, msg_Type = ''error'',
      msg_Payload = Some (JArr (replicate (length texts) (JObj [])))\<rparr>) (c_outgoing c)\<rparr>)"
  using assms open_connD [OF assms(1)]
  by (cases c)
    (simp add: sendOperationErrors_def marshal_errors_plain run_simps runlock_state_def gql_type_defs
      zero_OperationMessage_def)

lemma operation_errors_lose_their_texts_witness:
  "chan_buf (c_outgoing (outcome_state (run (sendOperationErrors demo ''7'' [ErrSubscriptionHasNoQuery]
     (conn_with connStateEstablished []))))) =
   [Msg \<lparr>msg_ID = ''7'', msg_Type = ''error'', msg_Payload = Some (JArr [JObj []])\<rparr>]"
proof -
  have o: "open_conn (conn_with connStateEstablished [])" by (rule open_conn_with) simp
  show ?thesis
    using operation_errors_lose_their_texts [OF o, of demo "''7''" "[''subscription query is empty'']"]
    by (simp add: ErrSubscriptionHasNoQuery_def)
qed

subsection \<open>Stopping\<close>

text \<open>
  A \<open>stop\<close> tells the stop handlers but never removes the subscription: whatever the
  handlers do, the table of subscriptions is the same afterwards, so that the same
  subscription can be stopped again and again.
\<close>

lemma stop_keeps_subscription:
  "c_Subscriptions (outcome_state (run (gqlStop E stop c))) = c_Subscriptions c \<and>
   c_outgoing (outcome_state (run (gqlStop E stop c))) = c_outgoing c"
  by (auto simp: run_gqlStop split: prod.splits sum.splits option.splits)

text \<open>
  A \<open>stop\<close> message without a payload, which is how the protocol stops one operation by
  the id of the message, closes the whole connection, whatever its id.
\<close>

lemma stop_without_payload_closes:
  assumes "open_conn c" and "msg_Type m = ''stop''" and "msg_Payload m = None"
    and "closed_by E c = (Inr e, w)" and "\<not> cut_short e"
  shows "run (processIncomeMessage E (Msg m) c) = Done () (closed_conn (snd (ws_Close E w)) c)"
  using assms
  by (cases e; cases "ws_Close E w")
    (simp_all add: processIncomeMessage_cases process_stop_def run_simps run_close_open)

lemma stop_without_payload_closes_witness:
  "run (processIncomeMessage demo (Msg \<lparr>msg_ID = ''7'', msg_Type = ''stop'', msg_Payload = None\<rparr>)
     (conn_with connStateEstablished [HObj 0])) =
   Done () (closed_conn [''bye'', ''close''] (conn_with connStateEstablished [HObj 0]))"
proof -
  let ?c = "conn_with connStateEstablished [HObj 0]"
  have o: "open_conn ?c" by (rule open_conn_with) simp
  have cb: "closed_by demo ?c = (Inr Completed, [''bye''])"
    by (simp add: closed_by_def handler_call_def demo_env_def demo_impls_def)
  show ?thesis
    using stop_without_payload_closes [OF o _ _ cb,
        of "\<lparr>msg_ID = ''7'', msg_Type = ''stop'', msg_Payload = None\<rparr>"]
    by (simp add: demo_env_def note_event_def)
qed

text \<open>
  \<open>connection_terminate\<close> tells the terminate handlers and then queues the end-of-file
  message behind the messages already queued.  When the queue is full, the goroutine that
  would have to empty it is the one that waits: run alone it is stuck.
\<close>

lemma terminate_queues_EOF:
  assumes "open_conn c" and "msg_Type m = ''connection_terminate''"
    and "loop_spec (handler_call HandleConnectionTerminate GQLConnectionTerminate E)
      (until_propagation_stopped :: unit reaction) (c_Handlers c) (c_world c) = (Inr e, w)"
  shows "run (processIncomeMessage E (Msg m) c) =
    (if has_room (c_incoming c)
     then Done () (c\<lparr>c_world := w, c_incoming := chan_push operationMessageEOF (c_incoming c)\<rparr>)
     else Stuck (\<lambda>c. can_send (c_incoming c)) (c\<lparr>c_world := w\<rparr>))"
  using assms(2,3) open_connD [OF assms(1)]
  by (simp add: processIncomeMessage_cases process_terminate_def run_simps can_send_def has_room_def)

text \<open>
  Messages of any other type, and the message without a type, are ignored: the
  connection and the outside state stay as they are.
\<close>

lemma other_messages_ignored:
  assumes "msg_Type m \<notin> {''connection_init'', ''connection_terminate'', ''start'', ''stop''}"
  shows "run (processIncomeMessage E (Msg m) c) = Done () c"
  using assms by (simp add: processIncomeMessage_other)

subsection \<open>Reading\<close>

text \<open>
  What the pongs of a turn lead to: the deadline is moved and the handlers are told, for one after
  the other, up to a panic or a first error.
\<close>

fun pongs_answered :: "'w env \<Rightarrow> 'w conn \<Rightarrow> string list \<Rightarrow> 'w \<Rightarrow> (panic + goerr option) \<times> 'w" where
  "pongs_answered E c [] w = (Inr None, w)"
| "pongs_answered E c (p # ps) w = (case ws_SetReadDeadline E (pong_wait (c_config c)) w of
       (Some e, w) \<Rightarrow> (Inr (Some e), w)
     | (None, w) \<Rightarrow> (case loop_spec (handler_call HandleWebsocketPong p E) until_error (c_Handlers c) w of
           (Inl q, w) \<Rightarrow> (Inl q, w)
         | (Inr (Returned e), w) \<Rightarrow> (Inr (Some e), w)
         | (Inr _, w) \<Rightarrow> pongs_answered E c ps w))"

text \<open>
  The loop ends with an error of \<open>ReadJSON\<close>.  Unless the network connection or a close frame is
  the reason, the end-of-file message is queued, which panics on a closed queue.
\<close>

fun of_connection :: "goerr \<Rightarrow> bool" where
  "of_connection (WsCloseErr s) = True"
| "of_connection (NetOpErr s) = True"
| "of_connection e = False"

definition ended_by_error :: "goerr \<Rightarrow> 'w conn \<Rightarrow> (panic, bool, 'w conn) outcome" where
  "ended_by_error e c = (if of_connection e then Done False c
     else if chan_closed (c_incoming c) then Panicked PSendClosed c
     else Done False (c\<lparr>c_incoming := chan_push operationMessageEOF (c_incoming c)\<rparr>))"

text \<open>After the pongs: what is queued for what \<open>ReadJSON\<close> comes to.\<close>

definition read_outcome :: "'w env \<Rightarrow> read_end \<Rightarrow> 'w conn \<Rightarrow> (panic, bool, 'w conn) outcome" where
  "read_outcome E r c = (case r of
       Frame j \<Rightarrow> (case decode_OperationMessage j of
           Inr (Some m) \<Rightarrow> Done True (c\<lparr>c_incoming := chan_push (Msg m) (c_incoming c)\<rparr>)
         | Inr None \<Rightarrow> Panicked PNilDeref c
         | Inl e \<Rightarrow> Done False (c\<lparr>c_incoming := chan_push operationMessageEOF (c_incoming c)\<rparr>))
     | ReadFails e \<Rightarrow> ended_by_error e c
     | PeerClose code reason \<Rightarrow> (case closed_by E c of
           (Inl p, w) \<Rightarrow> Panicked p (half_closed_conn w c)
         | (Inr (Returned err), w) \<Rightarrow> ended_by_error err (half_closed_conn w c)
         | (Inr _, w) \<Rightarrow> (case ws_Close E w of
               (None, w') \<Rightarrow> Done False (closed_conn w' c)
             | (Some err, w') \<Rightarrow> ended_by_error err (closed_conn w' c))))"

lemma run_queue_error:
  assumes "chan_closed (c_incoming c) \<or> has_room (c_incoming c)"
  shows "run (queue_read (Inl e) c) = ended_by_error e c"
  using assms
  by (cases e) (auto simp: queue_read_def ended_by_error_def run_simps has_room_def can_send_def)

lemma decode_error_kind: "decode_OperationMessage j = Inl e \<Longrightarrow> \<not> of_connection e"
  by (auto simp: decode_OperationMessage_def split: json.splits sum.splits)

lemma run_queued_read:
  assumes "open_conn c" and "has_room (c_incoming c)"
  shows "run (andthen (ReadJSON E [] r c) queue_read) = read_outcome E r c"
proof (cases r)
  case (Frame j)
  then show ?thesis
    using assms open_connD [OF assms(1)] run_queue_error [of c] decode_error_kind
    by (auto simp: run_simps queue_read_def read_outcome_def ended_by_error_def
        split: sum.split option.split)
next
  case (ReadFails e)
  then show ?thesis
    using assms run_queue_error [of c] by (simp add: run_simps read_outcome_def)
next
  case (PeerClose code reason)
  have half: "chan_closed (c_incoming (half_closed_conn w c)) \<or> has_room (c_incoming (half_closed_conn w c))" for w
    using assms(2) by (simp add: half_closed_conn_def)
  have closed: "chan_closed (c_incoming (closed_conn w c)) \<or> has_room (c_incoming (closed_conn w c))" for w
    by (simp add: closed_conn_def)
  show ?thesis
    using PeerClose run_queue_error [OF half] run_queue_error [OF closed]
    by (auto simp: run_simps closeHandler_def run_close_open [OF assms(1)] read_outcome_def ended_by_error_def
        bind_outcome_def split: prod.split sum.split loop_end.split option.split)
qed

lemma run_pongs:
  assumes "open_conn c" and "has_room (c_incoming c)"
  shows "run (andthen (ReadJSON E ps r c) queue_read) = (case pongs_answered E c ps (c_world c) of
      (Inl p, w) \<Rightarrow> Panicked p (c\<lparr>c_world := w\<rparr>)
    | (Inr (Some e), w) \<Rightarrow> ended_by_error e (c\<lparr>c_world := w\<rparr>)
    | (Inr None, w) \<Rightarrow> read_outcome E r (c\<lparr>c_world := w\<rparr>))"
  using assms
proof (induction ps arbitrary: c)
  case (Cons p ps)
  have opened: "open_conn (c\<lparr>c_world := w\<rparr>)" "has_room (c_incoming (c\<lparr>c_world := w\<rparr>))" for w
    using Cons.prems by (simp_all add: open_conn_def idle_def)
  have same: "pongs_answered E (c\<lparr>c_world := w\<rparr>) ps' w' = pongs_answered E c ps' w'" for w ps' w'
    by (induction ps' arbitrary: w') (auto split: prod.split option.split sum.split loop_end.split)
  show ?case
    using Cons.IH [OF opened] run_queue_error [of "c\<lparr>c_world := w\<rparr>" for w] opened
    by (auto simp: run_simps pongHandler_def extcall_def bind_outcome_def same andthen_assoc
        split: prod.split option.split sum.split loop_end.split)
qed (simp add: run_queued_read)

text \<open>
  C24: one turn of \<open>readPump\<close> on an opened connection with room in its queue, on every path.  The
  pongs before the message are answered.  A frame that decodes is queued as that message and the
  loop goes on; the frame \<open>null\<close> panics.  An error ends the loop, be it of the network, of the
  decoding, of a handler, or of the close that a close frame leads to: after a \<open>CloseError\<close> or a
  \<open>net.OpError\<close> nothing is queued, after any other the end-of-file message, for which there is no
  queue any more if the close went through to the socket and failed there.
\<close>

theorem readPump_queues:
  assumes "open_conn c" and "has_room (c_incoming c)"
  shows "run (readPump_body E ps r c) = (case pongs_answered E c ps (c_world c) of
      (Inl p, w) \<Rightarrow> Panicked p (c\<lparr>c_world := w\<rparr>)
    | (Inr (Some e), w) \<Rightarrow> ended_by_error e (c\<lparr>c_world := w\<rparr>)
    | (Inr None, w) \<Rightarrow> read_outcome E r (c\<lparr>c_world := w\<rparr>))"
  using run_pongs [OF assms] open_connD [OF assms(1)]
  by (simp add: readPump_body_def run_andthen run_getState bind_outcome_def)

theorem readPump_queues_witness:
  "run (readPump_body demo [''x''] (Frame (JObj [(''type'', JStr ''stop'')])) (conn_with connStateEstablished [])) =
     Done True ((conn_with connStateEstablished [])\<lparr>c_world := [''read deadline''], c_incoming :=
       chan_push (Msg \<lparr>msg_ID = '''', msg_Type = ''stop'', msg_Payload = None\<rparr>) (make_chan 10)\<rparr>) \<and>
   run (readPump_body demo [] (ReadFails (OtherErr ''short'')) (conn_with connStateEstablished [])) =
     Done False ((conn_with connStateEstablished [])\<lparr>c_incoming := chan_push operationMessageEOF (make_chan 10)\<rparr>)"
proof -
  have o: "open_conn (conn_with connStateEstablished [])" by (rule open_conn_with) simp
  show ?thesis
    using readPump_queues [OF o, of demo "[''x'']" "Frame (JObj [(''type'', JStr ''stop'')])"]
      readPump_queues [OF o, of demo "[]" "ReadFails (OtherErr ''short'')"]
    by (simp add: decode_OperationMessage_def decode_struct_def OperationMessage_field_def
        zero_OperationMessage_def read_outcome_def ended_by_error_def demo_env_def note_event_def)
qed

end
