(* ===== verification/SystemProperties.thy ===== *)
theory SystemProperties
  imports SystemInvariants MessageProperties
begin

text \<open>
  Properties of a connection in every interleaving of its goroutines, and executions that show
  what can happen: a processing goroutine that blocks on its own queue, and the ends of the
  program by a panic that nothing recovers.
\<close>

subsection \<open>Executions\<close>

definition new_sys :: "string list sys" where
  "new_sys = start_sys (snd (NewConn (Some 0) demo_config 0 []))"

lemma reachable_fire: "fire_all E evs new_sys = Some s \<Longrightarrow> reachable E s"
  unfolding reachable_def new_sys_def by (blast intro: fire_all_reaches reaches_refl)

text \<open>What is to be seen of a goroutine, without the code it still has to run.\<close>

datatype activity = Working | Waiting | Ended | EndedBy panic

fun activity_of :: "'w goroutine \<Rightarrow> activity" where
  "activity_of (At ph po) = Working"
| "activity_of (Suspended ph g k) = Waiting"
| "activity_of Gone = Ended"
| "activity_of (Crashed p) = EndedBy p"

definition reader_starts :: "event list" where
  "reader_starts = [ReaderGo [] (Frame JNull), ReaderResume]"

definition reads :: "json \<Rightarrow> event list" where
  "reads j = [ReaderGo [] (Frame j), ReaderResume, ReaderResume, ReaderResume]"

definition adds_handler :: "handler \<Rightarrow> nat \<Rightarrow> event list" where
  "adds_handler h i = [CallGo (CallAddHandler h), CallResume i]"

definition init_frame :: json where
  "init_frame = JObj [(''type'', JStr ''connection_init'')]"

definition start_frame :: json where
  "start_frame = JObj [(''id'', JStr ''1''), (''type'', JStr ''start''),
     (''payload'', JObj [(''query'', JStr ''q'')])]"

definition one_subscription :: "event list" where
  "one_subscription = reader_starts @ reads init_frame @ reads start_frame @
     ProcGo SelPing # ProcGo SelIncoming # replicate 4 ProcResume @ [ProcGo SelIncoming, ProcResume, ProcResume]"

lemma one_subscription_run:
  "map_option (\<lambda>s. (map_option sub_ID (c_Subscriptions (con s) ''1''), length (chan_buf (c_outgoing (con s)))))
     (fire_all demo one_subscription new_sys) = Some (Some ''1'', 1)"
  by code_simp

subsection \<open>Properties of every interleaving\<close>

text \<open>
  C1: In every state a connection can get into, whatever the peer sends, however the
  goroutines interleave and whichever exported methods are called, each queue holds at most ten
  messages, the incoming queue is closed only after the outgoing one, and the outgoing one only
  after the shutdown channel.
\<close>

theorem channels_are_bounded_and_closed_in_order:
  assumes "reachable E s"
  shows "length (chan_buf (c_outgoing (con s))) \<le> 10 \<and> length (chan_buf (c_incoming (con s))) \<le> 10 \<and>
    (chan_closed (c_incoming (con s)) \<longrightarrow> chan_closed (c_outgoing (con s))) \<and>
    (chan_closed (c_outgoing (con s)) \<longrightarrow> c_shutdown (con s))"
  using reachable_ok [OF assms] by (auto simp: sys_ok_def conn_ok_def chan_ok_def close_order_def)

theorem channels_are_bounded_and_closed_in_order_witness:
  "length (chan_buf (c_outgoing (con (the (fire_all demo one_subscription new_sys))))) \<le> 10"
proof -
  obtain s where s: "fire_all demo one_subscription new_sys = Some s"
    using one_subscription_run by blast
  show ?thesis
    using channels_are_bounded_and_closed_in_order [OF reachable_fire [OF s]] by (simp add: s)
qed

text \<open>
  C3: In every interleaving, a connection has a subscription only after the acknowledgement
  of the handshake was queued for the client.
\<close>

theorem subscriptions_only_after_handshake:
  assumes "reachable E s" and "c_Subscriptions (con s) i = Some x"
  shows "Msg gqlConnectionAck_message \<in> set (chan_history (c_outgoing (con s)))"
  using reachable_ok [OF assms(1)] assms(2) by (auto simp: sys_ok_def conn_ok_def acked_def)

theorem subscriptions_only_after_handshake_witness:
  "\<exists>s x. reachable demo s \<and> c_Subscriptions (con s) ''1'' = Some x \<and>
     Msg gqlConnectionAck_message \<in> set (chan_history (c_outgoing (con s)))"
proof -
  obtain s x where s: "fire_all demo one_subscription new_sys = Some s"
    and x: "c_Subscriptions (con s) ''1'' = Some x"
    using one_subscription_run by (auto simp: map_option_case split: option.splits)
  show ?thesis
    using subscriptions_only_after_handshake [OF reachable_fire [OF s] x] reachable_fire [OF s] x
    by blast
qed

text \<open>
  C32: once the processing goroutine waits to put a message into its own full queue, which
  only it empties, it stays there in every continuation, with the queue full, until some other
  goroutine has closed the connection.
\<close>

theorem processor_blocks_on_its_own_queue:
  assumes "reachable E s" and "pr s = Suspended ph (\<lambda>c. can_send (c_incoming c)) k"
    and "\<not> can_send (c_incoming (con s))"
    and "reaches E s t" and "\<not> chan_closed (c_incoming (con t))"
  shows "pr t = pr s \<and> length (chan_buf (c_incoming (con t))) = 10"
  using assms(4,1-3,5)
proof (induction rule: reaches.induct)
  case (reaches_refl s)
  then show ?case
    using reachable_ok [of E s] by (auto simp: sys_ok_def conn_ok_def can_send_def chan_ok_def)
next
  case (reaches_step s t ev u)
  have t: "sys_ok t" using sys_ok_reaches reaches_step reachable_ok by blast
  have "proc_step (con t) (con u)" using sys_ok_step reaches_step t by blast
  then have open_t: "\<not> chan_closed (c_incoming (con t))"
    using reaches_step by (auto simp: proc_step_def step_ok_def chan_step_def)
  then have IH: "pr t = pr s" "length (chan_buf (c_incoming (con t))) = 10"
    using reaches_step by auto
  then have full: "\<not> can_send (c_incoming (con t))"
    using t open_t by (simp add: can_send_def sys_ok_def conn_ok_def)
  have "env_step (con t) (con u) \<and> pr u = pr t"
    using sys_step_env [OF reaches_step(2) t] reaches_step(2,5) IH full
    by (auto elim: proc_go_cases proc_resume_cases)
  moreover have "sys_ok u" using sys_ok_step reaches_step t by blast
  ultimately show ?case
    using IH env_step_full [of "con t" "con u"]
    by (simp add: sys_ok_def conn_ok_def)
qed

definition other_frame :: json where
  "other_frame = JObj [(''type'', JStr ''data'')]"

text \<open>A handler refuses the handshake while the reader fills the queue.\<close>

definition blocking :: "event list" where
  "blocking = adds_handler (HObj 4) 0 @ reader_starts @ reads init_frame @
     ProcGo SelPing # ProcGo SelIncoming # ProcResume #
     concat (replicate 10 (reads other_frame)) @ replicate 3 ProcResume"

lemma blocking_run:
  "map_option (\<lambda>s. (can_send (c_incoming (con s)), case pr s of Suspended ph g k \<Rightarrow> P g | _ \<Rightarrow> False))
     (fire_all demo blocking new_sys) = Some (False, P (\<lambda>c. can_send (c_incoming c)))"
  by code_simp

theorem processor_blocks_on_its_own_queue_witness:
  "\<exists>s. reachable demo s \<and> (\<forall>t. reaches demo s t \<longrightarrow> \<not> chan_closed (c_incoming (con t)) \<longrightarrow>
     pr t = pr s \<and> length (chan_buf (c_incoming (con t))) = 10)"
proof -
  let ?g = "\<lambda>c. can_send (c_incoming c)"
  obtain s ph k where s: "fire_all demo blocking new_sys = Some s"
    and full: "\<not> can_send (c_incoming (con s))" and p: "pr s = Suspended ph ?g k"
    using blocking_run [of "\<lambda>g. g = ?g"]
    by (auto simp: map_option_case split: option.splits goroutine.splits)
  show ?thesis
    using processor_blocks_on_its_own_queue [OF reachable_fire [OF s] p full] reachable_fire [OF s]
    by blast
qed

subsection \<open>Ends of the program\<close>

lemma extcall_eq:
  "extcall f c = Ret (fst (f (c_world c))) (c\<lparr>c_world := snd (f (c_world c))\<rparr>)"
  by (simp add: extcall_def split_beta)

lemmas step_eval = fire_def put_reader_def put_proc_def reader_code_def processor_code_def
  alive_def start_sys_def NewConn_def readPump_start_def readPump_body_def readPump_exit_def
  deferred_close_def close_def close_body_def Close_def setState_def getState_def lock_state_def
  rlock_state_def wait_for_def unlock_defs extcall_eq queue_read_def close_shutdown_def
  close_out_def close_in_def sleep_def make_chan_def chan_close_def

text \<open>
  C34: whatever the configuration, the handlers' and the library's behaviour, a peer can end
  the whole program: after a new connection was started and the peer has sent the text \<open>null\<close>, an
  execution is in a state where the reading goroutine panicked, nothing recovers, and no
  goroutine does anything any more.  (A read limit of less than four bytes would keep the text out.)
\<close>

theorem a_peer_can_end_the_program:
  "\<exists>s. reaches E (start_sys (snd (NewConn schema config n w))) s \<and> rd s = Crashed PNilDeref \<and>
     {t. reaches E s t} = {s}"
proof -
  let ?evs = "[ReaderGo [] (Frame JNull), ReaderResume, ReaderGo [] (Frame JNull), ReaderResume,
     ReaderResume, ReaderGo [] (Frame JNull), ReaderResume, ReaderResume]"
  have "\<exists>s. fire_all E ?evs (start_sys (snd (NewConn schema config n w))) = Some s \<and>
    rd s = Crashed PNilDeref"
    by (cases "ReadLimit config") (simp_all add: step_eval decode_OperationMessage_def)
  then show ?thesis
    by (metis alive_def crashed.simps(1) dead_is_final fire_all_reaches reaches_refl)
qed

text \<open>A caller closes the connection before the other goroutines have started.\<close>

lemma early_close_run:
  assumes "WriteTimeout config = Some d" and "ws_WriteControl E CloseMessage d w = (None, w')"
  shows "\<exists>s. fire_all E [CallGo CallClose, CallResume 0, CallResume 0, CallResume 0]
      (start_sys (snd (NewConn schema config n w))) = Some s \<and>
    rd s = At Starting None \<and> alive s \<and> c_shutdown (con s) \<and>
    \<not> c_wlock (con s) \<and> c_rlocks (con s) = 0"
  using assms by (simp add: step_eval)

text \<open>The reading goroutine starts over a connection that was closed.\<close>

abbreviation failing :: event where
  "failing \<equiv> ReaderGo [] (ReadFails (NetOpErr ''closed''))"

lemma revive_run:
  assumes "rd s = At Starting None" and "alive s" and "c_shutdown (con s)"
    and "\<not> c_wlock (con s)" and "c_rlocks (con s) = 0"
  shows "\<exists>t. fire_all E [failing, ReaderResume] s = Some t \<and> rd t = At Looping None \<and> alive t \<and>
    c_shutdown (con t) \<and> \<not> c_wlock (con t) \<and> c_rlocks (con t) = 0 \<and>
    c_state (con t) = connStateInitializing"
  using assms by (cases "ReadLimit (c_config (con s))") (simp_all add: step_eval)

lemma failing_read_run:
  assumes "rd s = At Looping None" and "alive s" and "\<not> c_wlock (con s)"
    and "c_state (con s) \<noteq> connStateClosed"
  shows "fire_all E [failing, ReaderResume, ReaderResume] s = Some (s\<lparr>rd := At Leaving None\<rparr>)"
  using assms by (simp add: step_eval)

lemma second_close_run:
  assumes "rd s = At Leaving None" and "alive s" and "c_shutdown (con s)"
    and "\<not> c_wlock (con s)" and "c_rlocks (con s) = 0" and "c_state (con s) \<noteq> connStateClosed"
  shows "\<exists>t. fire_all E [failing, ReaderResume] s = Some t \<and> rd t = Crashed PCloseClosed"
  using assms by (simp add: step_eval)

text \<open>
  C36: a connection that is closed before its reading goroutine has started comes back to life:
  the goroutine sets the state to initializing without looking at it.  The read then fails, and
  the second close closes a closed channel, which ends the program.
\<close>

theorem early_close_ends_the_program:
  assumes "WriteTimeout config = Some d" and "ws_WriteControl E CloseMessage d w = (None, w')"
  shows "\<exists>s. reaches E (start_sys (snd (NewConn schema config n w))) s \<and>
    rd s = Crashed PCloseClosed \<and> {t. reaches E s t} = {s}"
proof -
  let ?s = "start_sys (snd (NewConn schema config n w))"
  obtain t where t: "fire_all E [CallGo CallClose, CallResume 0, CallResume 0, CallResume 0] ?s = Some t"
    and "rd t = At Starting None \<and> alive t \<and> c_shutdown (con t) \<and> \<not> c_wlock (con t) \<and>
      c_rlocks (con t) = 0"
    using early_close_run [OF assms] by blast
  then obtain u where u: "fire_all E [failing, ReaderResume] t = Some u"
    and revived: "rd u = At Looping None" "alive u" "c_shutdown (con u)" "\<not> c_wlock (con u)"
      "c_rlocks (con u) = 0" "c_state (con u) \<noteq> connStateClosed"
    using revive_run [of t E] by auto
  let ?v = "u\<lparr>rd := At Leaving None\<rparr>"
  have v: "fire_all E [failing, ReaderResume, ReaderResume] u = Some ?v"
    using failing_read_run revived by blast
  obtain x where x: "fire_all E [failing, ReaderResume] ?v = Some x" "rd x = Crashed PCloseClosed"
    using second_close_run [of ?v E] revived by (auto simp: alive_def)
  have "reaches E ?s x"
    using x(1) v u t by (blast intro: fire_all_reaches reaches_refl)
  moreover have "{t. reaches E x t} = {x}"
    using x(2) by (intro dead_is_final) (simp add: alive_def)
  ultimately show ?thesis using x(2) by blast
qed

theorem early_close_ends_the_program_witness:
  "\<exists>s. reachable demo s \<and> rd s = Crashed PCloseClosed"
proof -
  have "WriteTimeout demo_config = Some 15000000000" by (simp add: demo_config_def)
  moreover have "ws_WriteControl demo CloseMessage 15000000000 [] = (None, [''control''])"
    by (simp add: demo_env_def note_event_def)
  ultimately show ?thesis
    unfolding reachable_def
    using early_close_ends_the_program [of demo_config 15000000000 demo "[]" "[''control'']"]
    by blast
qed

subsection \<open>A handshake nobody was asked about\<close>

lemma decode_init_frame: "decode_OperationMessage init_frame = Inr (Some init_msg)"
  by code_simp

text \<open>The reading goroutine starts, reads the handshake, and the processing goroutine answers.\<close>

lemma reader_starts_run:
  "\<exists>c. fire_all E reader_starts (start_sys (snd (NewConn schema config n w))) =
      Some \<lparr>con = c, rd = At Looping None, pr = At Starting None, cls = []\<rparr> \<and> open_conn c \<and>
    c_Handlers c = [] \<and> c_config c = config \<and> c_outgoing c = make_chan 10 \<and>
    c_incoming c = make_chan 10 \<and>
    c_world c = (case ReadLimit config of None \<Rightarrow> w | Some l \<Rightarrow> snd (ws_SetReadLimit E l w))"
  by (cases "ReadLimit config")
    (simp_all add: reader_starts_def step_eval open_conn_def idle_def chan_close_def)

lemma reads_init_run:
  assumes "open_conn c" and "c_incoming c = make_chan 10"
  shows "fire_all E (reads init_frame)
      \<lparr>con = c, rd = At Looping None, pr = At Starting None, cls = []\<rparr> =
    Some \<lparr>con = c\<lparr>c_incoming := chan_push (Msg init_msg) (make_chan 10)\<rparr>,
      rd = At Looping None, pr = At Starting None, cls = []\<rparr>"
  using assms
  by (cases c) (simp add: reads_def fire_def alive_def put_reader_def reader_code_def readPump_body_def
      getState_def rlock_state_def wait_for_def unlock_defs decode_init_frame queue_read_def
      send_in_def can_send_def open_conn_def idle_def)

lemma answers_init_run:
  assumes "open_conn c" and "c_Handlers c = []" and "c_outgoing c = make_chan 10"
    and "c_incoming c = chan_push (Msg init_msg) (make_chan 10)"
    and "ticker_ok (ping_interval (pong_wait (c_config c)))"
  shows "\<exists>d. fire_all E (ProcGo SelPing # ProcGo SelIncoming # replicate 4 ProcResume)
      \<lparr>con = c, rd = At Looping None, pr = At Starting None, cls = []\<rparr> =
    Some \<lparr>con = d, rd = At Looping None, pr = At Looping None, cls = []\<rparr> \<and>
    c_state d = connStateEstablished \<and> c_outgoing d = chan_push (Msg gqlConnectionAck_message) (make_chan 10) \<and>
    c_Handlers d = [] \<and> \<not> c_hlock d \<and> c_world d = c_world c"
  using assms
  by (cases c) (simp add: numeral_eq_Suc fire_def alive_def put_proc_def processor_code_def
      processMessages_start_def processMessages_body_def wait_for_def select_body_def can_recv_def
      chan_recv_Cons processIncomeMessage_def init_msg_def gql_type_defs process_init_def
      lockHandlers_def lock_handlers_def unlock_defs setState_def lock_state_def send_out_def
      can_send_def open_conn_def idle_def)

lemma attach_run:
  assumes "\<not> c_hlock d" and "c_Handlers d = []"
  shows "\<exists>s. fire_all E (adds_handler h 0)
      \<lparr>con = d, rd = At Looping None, pr = At Looping None, cls = []\<rparr> = Some s \<and>
    c_Handlers (con s) = [h] \<and> c_state (con s) = c_state d \<and> c_outgoing (con s) = c_outgoing d \<and>
    c_world (con s) = c_world d"
  using assms
  by (simp add: adds_handler_def fire_def alive_def AddHandler_def lock_handlers_def wait_for_def
      unlock_defs)

text \<open>
  C37: the callback that attaches the handlers of a connection is called after its goroutines
  were started.  Whatever the environment, a client whose handshake arrives at once is
  accepted before a handler \<open>h\<close> is attached: the connection is established and acknowledged,
  \<open>h\<close> is in the list, and neither \<open>h\<close> nor any other handler was ever called.
\<close>

theorem handshake_can_slip_past_the_handlers:
  assumes "ticker_ok (ping_interval (pong_wait config))"
  shows "\<exists>s. reaches E (start_sys (snd (NewConn schema config n w))) s \<and>
    c_state (con s) = connStateEstablished \<and> c_Handlers (con s) = [h] \<and>
    chan_buf (c_outgoing (con s)) = [Msg gqlConnectionAck_message] \<and>
    c_world (con s) = (case ReadLimit config of None \<Rightarrow> w | Some l \<Rightarrow> snd (ws_SetReadLimit E l w))"
proof -
  let ?s = "start_sys (snd (NewConn schema config n w))"
  obtain c where c: "fire_all E reader_starts ?s =
      Some \<lparr>con = c, rd = At Looping None, pr = At Starting None, cls = []\<rparr>"
    "open_conn c" "c_Handlers c = []" "c_config c = config" "c_outgoing c = make_chan 10"
    "c_incoming c = make_chan 10"
    "c_world c = (case ReadLimit config of None \<Rightarrow> w | Some l \<Rightarrow> snd (ws_SetReadLimit E l w))"
    using reader_starts_run [of E schema config n w] by blast
  let ?c = "c\<lparr>c_incoming := chan_push (Msg init_msg) (make_chan 10)\<rparr>"
  have "open_conn ?c" using c(2) by (simp add: open_conn_def idle_def)
  then obtain d where d: "fire_all E (ProcGo SelPing # ProcGo SelIncoming # replicate 4 ProcResume)
      \<lparr>con = ?c, rd = At Looping None, pr = At Starting None, cls = []\<rparr> =
      Some \<lparr>con = d, rd = At Looping None, pr = At Looping None, cls = []\<rparr>"
    "c_state d = connStateEstablished" "c_outgoing d = chan_push (Msg gqlConnectionAck_message) (make_chan 10)"
    "c_Handlers d = []" "\<not> c_hlock d" "c_world d = c_world c"
    using answers_init_run [of ?c E] c(3-5) assms by auto
  obtain s where s: "fire_all E (adds_handler h 0)
      \<lparr>con = d, rd = At Looping None, pr = At Looping None, cls = []\<rparr> = Some s"
    "c_Handlers (con s) = [h]" "c_state (con s) = c_state d" "c_outgoing (con s) = c_outgoing d"
    "c_world (con s) = c_world d"
    using attach_run [OF d(5,4)] by blast
  have "reaches E ?s s"
    using fire_all_reaches [OF s(1) fire_all_reaches [OF d(1) fire_all_reaches [OF
      reads_init_run [OF c(2,6)] fire_all_reaches [OF c(1) reaches_refl]]]] .
  with s d c(7) show ?thesis by auto
qed

theorem handshake_can_slip_past_the_handlers_witness:
  "\<exists>s. reachable demo s \<and> c_state (con s) = connStateEstablished \<and> c_Handlers (con s) = [HObj 4]"
proof -
  have "ticker_ok (ping_interval (pong_wait demo_config))" by code_simp
  from handshake_can_slip_past_the_handlers [OF this, of demo "Some 0" 0 "[]" "HObj 4"]
  show ?thesis unfolding reachable_def by blast
qed

end
