(* ===== verification/PeerMessages.thy ===== *)
theory PeerMessages
  imports SystemProperties
begin

text \<open>
  What the peer sends is what \<open>processMessages\<close> gets.  No goroutine but \<open>readPump\<close> puts a message
  into the incoming queue; \<open>readPump\<close> puts in one per frame, as the last thing it does in a turn.
\<close>

subsection \<open>The messages among what was queued\<close>

definition messages :: "msgptr list \<Rightarrow> OperationMessage list" where
  "messages ps = List.map_filter (\<lambda>p. case p of Msg m \<Rightarrow> Some m | _ \<Rightarrow> None) ps"

lemma messages_simps [simp]:
  "messages [] = []" "messages (ps @ qs) = messages ps @ messages qs"
  "messages (Msg m # ps) = m # messages ps" "messages (operationMessageEOF # ps) = messages ps"
  "messages (NilMsg # ps) = messages ps"
  by (simp_all add: messages_def map_filter_def)

definition posted :: "'w conn \<Rightarrow> OperationMessage list" where
  "posted c = messages (chan_history (c_incoming c))"

definition same_posts :: "'w conn \<Rightarrow> 'w conn \<Rightarrow> bool" where
  "same_posts s t \<longleftrightarrow> posted t = posted s"

lemma same_posts_refl [simp]: "same_posts s s"
  by (simp add: same_posts_def)

lemma transp_same_posts: "transp same_posts"
  by (simp add: transp_def same_posts_def)

lemma same_postsI: "c_incoming t = c_incoming s \<Longrightarrow> same_posts s t"
  by (simp add: same_posts_def posted_def)

lemma prim_same_posts: "prim V s t \<Longrightarrow> same_posts s t"
  by (induction rule: prim.induct) (simp_all add: same_posts_def posted_def)

text \<open>Whatever the goroutines other than \<open>readPump\<close> do, they add no message.\<close>

interpretation quiet: conn_guarantee "\<lambda>_ _. True" E step_ok same_posts "\<lambda>_. True" for E
  by unfold_locales
    (auto intro: any_world calls_ok_True transp_same_posts prim_same_posts step_ok_shutdown)

interpretation takes: processor_guarantee "\<lambda>_ _. True" E step_ok same_posts "\<lambda>_. True" "\<lambda>_. True" for E
proof unfold_locales
  fix s :: "'a conn" and x
  show "same_posts s (addSubscription x s)" by (simp add: same_postsI addSubscription_def)
  show "quiet.safe s (select_body E SelOutgoing s)"
    by (rule quiet.safe_outgoing) (auto intro: same_postsI)
qed (auto intro: any_world calls_ok_True transp_same_posts prim_same_posts step_ok_shutdown same_postsI
  simp: same_posts_def posted_def)

lemma api_code_posts: "rg step_ok same_posts (\<lambda>_ _. True) c (api_code E a c)"
  using quiet.safe_api_code [of c E a] by (simp add: quiet.safe_def)

lemma processor_code_posts: "rg step_ok same_posts (\<lambda>_ _. True) c (processor_code E ph po sel c)"
  using takes.safe_processor_code [of ph c E po sel] by (simp add: quiet.safe_def)

subsection \<open>One turn of the reader\<close>

text \<open>The message in what \<open>ReadJSON\<close> comes to, if there is one.\<close>

definition decoded :: "read_end \<Rightarrow> OperationMessage list" where
  "decoded r = (case r of
       Frame j \<Rightarrow> (case decode_OperationMessage j of Inr (Some m) \<Rightarrow> [m] | _ \<Rightarrow> [])
     | _ \<Rightarrow> [])"

text \<open>
  \<open>posting ms s m\<close>: the code \<open>m\<close>, started in \<open>s\<close>, queues the messages \<open>ms\<close> if it returns true,
  and none otherwise; before it returns it queues nothing.
\<close>

primrec posting :: "OperationMessage list \<Rightarrow> 'w conn \<Rightarrow> (bool, 'w) cprog \<Rightarrow> bool" where
  "posting ms s0 (Ret b s) = (posted s = posted s0 @ (if b then ms else []))"
| "posting ms s0 (Panic p s) = same_posts s0 s"
| "posting ms s0 (Wait g s k) = (same_posts s0 s \<and> (\<forall>t. step_ok s t \<longrightarrow> g t \<longrightarrow> posting ms t (k t)))"

lemma posting_from: "posted s = posted s0 \<Longrightarrow> posting ms s m \<Longrightarrow> posting ms s0 m"
  by (cases m) (simp_all add: same_posts_def)

lemma posting_andthen:
  assumes "rg step_ok same_posts Q s0 m" and "\<And>a s. Q a s \<Longrightarrow> posting ms s (f a s)"
  shows "posting ms s0 (andthen m f)"
  using assms(1)
proof (induction m arbitrary: s0)
  case (Ret a s)
  then show ?case using assms(2) by (auto simp: same_posts_def intro: posting_from)
qed auto

lemma posting_nothing: "rg step_ok same_posts Q s m \<Longrightarrow> posting [] s m"
  by (induction m arbitrary: s) (auto simp: same_posts_def)

lemma quiet_rg: "quiet.safe s m \<Longrightarrow> rg step_ok same_posts (\<lambda>_ _. True) s m"
  by (simp add: quiet.safe_def)

lemma ReadJSON_reads:
  "rg step_ok same_posts (\<lambda>x _. \<forall>m. x = Inr (Some m) \<longrightarrow> decoded r = [m]) s (ReadJSON E pongs r s)"
proof (induction pongs arbitrary: s)
  case Nil
  have "rg step_ok same_posts (\<lambda>x _. \<forall>m. x = Inr (Some m) \<longrightarrow> decoded r = [m]) t
      (andthen (closeHandler E c d t) (\<lambda>err u. Ret (Inl (case err of None \<Rightarrow> WsCloseErr d | Some e \<Rightarrow> e)) u))" for t c d
    by (rule rg_andthen [OF transp_same_posts quiet_rg]) (auto simp: closeHandler_def intro!: quiet.safe_andthen quiet.safe_close quiet.safe_Ret)
  then show ?case
    by (cases r) (auto simp: decoded_def intro!: rg_wait_for)
next
  case (Cons p pongs)
  have "rg step_ok same_posts (\<lambda>x _. \<forall>m. x = Inr (Some m) \<longrightarrow> decoded r = [m]) t
      (andthen (pongHandler E p t) (\<lambda>err u. case err of Some e \<Rightarrow> Ret (Inl e) u | None \<Rightarrow> ReadJSON E pongs r u))" for t
    by (rule rg_andthen [OF transp_same_posts quiet_rg])
      (auto intro!: quiet.safe_pongHandler Cons.IH split: option.split)
  then show ?case by (auto intro!: rg_wait_for)
qed

lemma queue_read_posts:
  "(\<And>m. x = Inr (Some m) \<Longrightarrow> ms = [m]) \<Longrightarrow> posting ms s (queue_read x s)"
  by (auto simp: queue_read_def send_in_def wait_for_def posted_def same_posts_def
      split: sum.split option.split goerr.split)

lemma readPump_body_posts: "posting (decoded r) s (readPump_body E pongs r s)"
  unfolding readPump_body_def
  by (rule posting_andthen [OF quiet_rg [OF quiet.safe_getState]])
    (auto intro!: posting_andthen [OF ReadJSON_reads] queue_read_posts)

lemma readPump_start_posts: "posting [] s (readPump_start E s)"
  unfolding readPump_start_def
  by (rule posting_nothing [OF quiet_rg])
    (auto intro!: quiet.safe_andthen quiet.safe_setState quiet.safe_calls quiet.safe_Ret same_postsI
      split: option.split)

definition frame_of :: "phase \<Rightarrow> read_end \<Rightarrow> OperationMessage list" where
  "frame_of ph r = (if ph = Looping then decoded r else [])"

lemma reader_code_posts: "posting (frame_of ph r) s (reader_code E ph po pongs r s)"
proof (cases ph)
  case Leaving
  then show ?thesis
    by (auto simp: reader_code_def frame_of_def
        intro!: posting_nothing [OF quiet_rg] quiet.safe_andthen quiet.safe_exits quiet.safe_Ret)
qed (auto simp: reader_code_def frame_of_def readPump_body_posts readPump_start_posts)

subsection \<open>The messages of an execution\<close>

text \<open>The messages of the peer that the turns of \<open>readPump\<close> in an execution got to read.\<close>

definition read_by :: "event \<Rightarrow> 'w sys \<Rightarrow> OperationMessage list" where
  "read_by ev s = (case ev of
       ReaderGo pongs r \<Rightarrow> (case rd s of At ph po \<Rightarrow> frame_of ph r | _ \<Rightarrow> [])
     | _ \<Rightarrow> [])"

fun messages_read :: "'w env \<Rightarrow> event list \<Rightarrow> 'w sys \<Rightarrow> OperationMessage list" where
  "messages_read E [] s = []"
| "messages_read E (ev # evs) s = read_by ev s @
     (case fire E ev s of None \<Rightarrow> [] | Some t \<Rightarrow> messages_read E evs t)"

text \<open>
  How much of \<open>ms\<close>, what was read, the queue has got: all of it, but for the message of the turn
  that \<open>readPump\<close> is in and, once it has left its loop, that of its last turn.
\<close>

fun delivered :: "OperationMessage list \<Rightarrow> 'w goroutine \<Rightarrow> 'w conn \<Rightarrow> bool" where
  "delivered ms (At ph po) c = (prefix (posted c) ms \<and> (ph \<noteq> Leaving \<longrightarrow> posted c = ms))"
| "delivered ms (Suspended ph g k) c = (\<exists>new. prefix (posted c @ new) ms \<and>
     (ph \<noteq> Leaving \<longrightarrow> posted c @ new = ms) \<and> (\<forall>t. step_ok c t \<longrightarrow> g t \<longrightarrow> posting new t (k t)))"
| "delivered ms Gone c = prefix (posted c) ms"
| "delivered ms (Crashed p) c = prefix (posted c) ms"

lemma delivered_prefix: "delivered ms g c \<Longrightarrow> prefix (posted c) ms"
  by (cases g) (auto dest: append_prefixD)

lemma delivered_moves:
  assumes "delivered ms g c" and "same_posts c d" and "step_ok c d"
  shows "delivered ms g d"
  using assms by (cases g) (auto simp: same_posts_def intro: step_ok_trans)

lemma delivered_settle:
  assumes "posting new s m" and "settle ph m = (g, c)" and "prefix (posted s @ new) ms"
    and "ph \<noteq> Leaving \<Longrightarrow> posted s @ new = ms"
  shows "delivered ms g c"
  using assms
  by (induction ph m rule: settle.induct)
    (auto simp: same_posts_def split: if_splits dest: append_prefixD intro!: exI [of _ new])

lemma reader_run:
  assumes "rd s = At ph po" and "delivered ms (rd s) (con s)"
    and "settle ph (reader_code E ph po pongs r (con s)) = (g, c)"
  shows "delivered (ms @ frame_of ph r) g c"
proof (rule delivered_settle [OF reader_code_posts assms(3)])
  show "prefix (posted (con s) @ frame_of ph r) (ms @ frame_of ph r)"
    using assms(1,2) by (cases ph) (auto simp: frame_of_def)
qed (use assms(1,2) in auto)

text \<open>The other goroutines.\<close>

abbreviation quiet_thread :: "'w goroutine \<Rightarrow> 'w conn \<Rightarrow> bool" where
  "quiet_thread \<equiv> thread_ok step_ok same_posts (\<lambda>_. True)"

definition others_quiet :: "'w sys \<Rightarrow> bool" where
  "others_quiet s \<longleftrightarrow> quiet_thread (pr s) (con s) \<and> (\<forall>g \<in> set (cls s). quiet_thread g (con s))"

lemma quiet_stable: "step_ok c d \<Longrightarrow> quiet_thread g c \<Longrightarrow> quiet_thread g d"
  by (rule thread_ok_stable [OF transp_step_ok])

lemma quiet_run:
  "rg step_ok same_posts (\<lambda>_ _. True) c m \<Longrightarrow> settle ph m = (g, d) \<Longrightarrow> same_posts c d \<and> quiet_thread g d"
  using thread_ok_settle [where ph = ph and R = step_ok and G = same_posts and J = "\<lambda>_. True" and s = c]
  by auto

lemma quiet_resumed:
  "quiet_thread (Suspended ph w k) c \<Longrightarrow> w c \<Longrightarrow> settle ph (k c) = (g, d) \<Longrightarrow>
    same_posts c d \<and> quiet_thread g d"
  by (rule quiet_run) simp_all

definition of_reader :: "event \<Rightarrow> bool" where
  "of_reader ev \<longleftrightarrow> (\<exists>pongs r. ev = ReaderGo pongs r) \<or> ev = ReaderResume"

lemma of_reader_simps [simp]:
  "of_reader (ReaderGo pongs r)" "of_reader ReaderResume" "\<not> of_reader (ProcGo sel)"
  "\<not> of_reader ProcResume" "\<not> of_reader (CallGo a)" "\<not> of_reader (CallResume i)"
  by (simp_all add: of_reader_def)

lemma quiet_step:
  assumes "sys_step E s ev t" and "others_quiet s" and "step_ok (con s) (con t)"
  shows "others_quiet t \<and> (\<not> of_reader ev \<longrightarrow> same_posts (con s) (con t) \<and> rd t = rd s)"
  using assms
proof (induction rule: sys_step.induct)
  case (call_resume s i ph guard k g c)
  then have "quiet_thread (Suspended ph guard k) (con s)" by (metis nth_mem others_quiet_def)
  with call_resume quiet_resumed [of ph guard k "con s" g c] show ?case
    by (auto simp: others_quiet_def dest!: subsetD [OF set_update_subset_insert] intro: quiet_stable)
next
  case (proc_resume s ph guard k g c)
  with quiet_resumed [of ph guard k "con s" g c] show ?case
    by (auto simp: others_quiet_def intro: quiet_stable)
qed (auto simp: others_quiet_def intro: quiet_stable dest: quiet_run [OF api_code_posts]
  quiet_run [OF processor_code_posts])

lemma delivered_step:
  assumes "sys_step E s ev t" and "sys_ok s" and "others_quiet s" and "delivered ms (rd s) (con s)"
  shows "others_quiet t \<and> delivered (ms @ read_by ev s) (rd t) (con t)"
proof -
  have ok: "step_ok (con s) (con t)" using sys_ok_step [OF assms(1,2)] by (simp add: proc_step_def)
  note quiet = quiet_step [OF assms(1,3) ok]
  show ?thesis
  proof (cases "of_reader ev")
    case False
    then have "read_by ev s = []" by (cases ev) (simp_all add: read_by_def)
    with quiet False delivered_moves [OF assms(4) _ ok] show ?thesis by simp
  next
    case True
    from assms(1) have "delivered (ms @ read_by ev s) (rd t) (con t)"
    proof (cases rule: sys_step.cases)
      case (reader_go ph po pongs r g c)
      with reader_run [OF reader_go(4) assms(4)] show ?thesis by (simp add: read_by_def)
    next
      case (reader_resume ph guard k g c)
      with assms(4) obtain new where new: "prefix (posted (con s) @ new) ms"
        "ph \<noteq> Leaving \<longrightarrow> posted (con s) @ new = ms"
        "\<forall>t. step_ok (con s) t \<longrightarrow> guard t \<longrightarrow> posting new t (k t)"
        by (auto simp: reader_resume(4))
      then have go: "posting new (con s) (k (con s))" using reader_resume(5) by simp
      show ?thesis
        using delivered_settle [OF go reader_resume(6) new(1)] new(2) reader_resume
        by (simp add: read_by_def)
    qed (use True in simp_all)
    with quiet show ?thesis by simp
  qed
qed

lemma delivered_fire_all:
  assumes "fire_all E evs s = Some t" and "sys_ok s" and "others_quiet s" and "delivered ms (rd s) (con s)"
  shows "delivered (ms @ messages_read E evs s) (rd t) (con t)"
  using assms
proof (induction evs arbitrary: s ms)
  case (Cons ev evs)
  then obtain u where u: "fire E ev s = Some u" "fire_all E evs u = Some t"
    by (auto split: option.splits)
  then have step: "sys_step E s ev u" by (simp add: sys_step_iff_fire)
  show ?case
    using Cons.IH [OF u(2), of "ms @ read_by ev s"] delivered_step [OF step Cons.prems(2-4)]
      sys_ok_step [OF step Cons.prems(2)] u(1) by simp
qed simp

abbreviation new_connection :: "nat option \<Rightarrow> config_values \<Rightarrow> 64 word \<Rightarrow> 'w \<Rightarrow> 'w sys" where
  "new_connection schema config n w \<equiv> start_sys (snd (NewConn schema config n w))"

lemma delivered_execution:
  assumes "fire_all E evs (new_connection schema config n w) = Some s"
  shows "delivered (messages_read E evs (new_connection schema config n w)) (rd s) (con s)"
proof -
  have "others_quiet (new_connection schema config n w)"
    "delivered [] (rd (new_connection schema config n w)) (con (new_connection schema config n w))"
    by (simp_all add: others_quiet_def start_sys_def NewConn_def posted_def make_chan_def chan_history_def)
  with delivered_fire_all [OF assms sys_ok_start] show ?thesis by force
qed

text \<open>
  C2: in every execution, whatever the peer sends and whatever the other goroutines do, the
  messages \<open>processMessages\<close> has taken are those of the first frames the peer sent that decode, in
  their order, each once, and no others: nothing else puts a message into the queue.  While
  \<open>readPump\<close> is between two turns of its loop none is missing either, be it taken or still queued.
\<close>

theorem peer_messages_are_taken_in_order:
  assumes "fire_all E evs (new_connection schema config n w) = Some s"
  shows "prefix (messages (chan_taken (c_incoming (con s))))
      (messages_read E evs (new_connection schema config n w)) \<and>
    (rd s = At Looping po \<longrightarrow>
      messages (chan_taken (c_incoming (con s))) @ messages (chan_buf (c_incoming (con s))) =
        messages_read E evs (new_connection schema config n w))"
  using delivered_execution [OF assms] delivered_prefix [OF delivered_execution [OF assms]]
  by (auto simp: posted_def chan_history_def dest: append_prefixD)

lemma two_messages_read:
  "map_option (\<lambda>s. (map msg_Type (messages_read demo one_subscription new_sys),
       map msg_Type (messages (chan_taken (c_incoming (con s)))),
       case rd s of At Looping po \<Rightarrow> True | _ \<Rightarrow> False))
     (fire_all demo one_subscription new_sys) =
   Some ([''connection_init'', ''start''], [''connection_init'', ''start''], True)"
  by code_simp

theorem peer_messages_are_taken_in_order_witness:
  "prefix (messages (chan_taken (c_incoming (con (the (fire_all demo one_subscription new_sys))))))
     (messages_read demo one_subscription new_sys) \<and>
   map msg_Type (messages_read demo one_subscription new_sys) = [''connection_init'', ''start'']"
proof -
  obtain s where s: "fire_all demo one_subscription new_sys = Some s"
    using two_messages_read by (cases "fire_all demo one_subscription new_sys") auto
  show ?thesis
    using peer_messages_are_taken_in_order [OF s [unfolded new_sys_def]] s two_messages_read
    by (simp add: new_sys_def)
qed

end
