(* ===== verification/TopicSubscriber.thy ===== *)
theory TopicSubscriber
  imports GoErrors
begin

text \<open>
  Topics and the subscriber that accumulates them (\<open>subscriber.go\<close>).  The interface
  \<open>Subscriber\<close> is the locale \<open>topic_accumulator\<close>; the default implementation of
  \<open>NewSubscriber\<close> interprets it.
\<close>

subsection \<open>Topics\<close>

text \<open>
  A value of the interface \<open>Topic\<close>: a \<open>StringTopic\<close>, or a pointer to another implementation.
  Interface values are equal when their types and values are.
\<close>

datatype Topic = StringTopic string | PtrTopic nat

text \<open>A value of \<open>interface{}\<close>, by whether it implements \<open>Topic\<close>.\<close>

datatype any = TopicValue Topic | NoTopic nat

definition StringTopic_ID :: "string \<Rightarrow> any" where
  "StringTopic_ID topic = TopicValue (StringTopic topic)"

subsection \<open>The interface\<close>

locale topic_accumulator =
  fixes empty_sub :: 's
    and subscribe :: "Topic \<Rightarrow> 's \<Rightarrow> 's"
    and topics_of :: "'s \<Rightarrow> Topic list"
  assumes topics_empty: "topics_of empty_sub = []"
    and topics_known: "t \<in> set (topics_of s) \<Longrightarrow> topics_of (subscribe t s) = topics_of s"
    and topics_new: "t \<notin> set (topics_of s) \<Longrightarrow> topics_of (subscribe t s) = topics_of s @ [t]"
begin

lemma set_subscribe: "set (topics_of (subscribe t s)) = insert t (set (topics_of s))"
  by (cases "t \<in> set (topics_of s)") (auto simp: topics_known topics_new)

lemma distinct_subscribe: "distinct (topics_of s) \<Longrightarrow> distinct (topics_of (subscribe t s))"
  by (cases "t \<in> set (topics_of s)") (auto simp: topics_known topics_new)

lemma set_subscribe_all:
  "set (topics_of (fold subscribe ts s)) = set ts \<union> set (topics_of s)"
  by (induction ts arbitrary: s) (auto simp: set_subscribe)

lemma distinct_subscribe_all:
  "distinct (topics_of s) \<Longrightarrow> distinct (topics_of (fold subscribe ts s))"
  by (induction ts arbitrary: s) (auto simp: distinct_subscribe)

lemma earlier_topics_kept: "\<exists>new. topics_of (fold subscribe ts s) = topics_of s @ new"
proof (induction ts arbitrary: s)
  case (Cons t ts)
  have "\<exists>new. topics_of (subscribe t s) = topics_of s @ new"
    by (cases "t \<in> set (topics_of s)") (auto simp: topics_known topics_new)
  then obtain n1 where n1: "topics_of (subscribe t s) = topics_of s @ n1" ..
  obtain n2 where "topics_of (fold subscribe ts (subscribe t s)) = topics_of (subscribe t s) @ n2"
    using Cons.IH [of "subscribe t s"] ..
  with n1 show ?case by auto
qed simp

text \<open>Subscribing a list from scratch gives each of its topics once.\<close>

lemma accumulated_topics:
  "set (topics_of (fold subscribe ts empty_sub)) = set ts"
  "distinct (topics_of (fold subscribe ts empty_sub))"
  by (simp_all add: set_subscribe_all distinct_subscribe_all topics_empty)

lemma accumulated_count: "length (topics_of (fold subscribe ts empty_sub)) = card (set ts)"
  using accumulated_topics [of ts] by (metis distinct_card)

lemma resubscribe_known:
  "set ts \<subseteq> set (topics_of s) \<Longrightarrow> topics_of (fold subscribe ts s) = topics_of s"
  by (induction ts arbitrary: s) (auto simp: topics_known)

end

subsection \<open>The default implementation\<close>

record subscriber =
  topics :: "Topic list"

definition NewSubscriber :: subscriber where
  "NewSubscriber = \<lparr>topics = []\<rparr>"

definition Topics :: "subscriber \<Rightarrow> Topic list" where
  "Topics s = topics s"

text \<open>The loop over the topics already there.\<close>

fun has_topic :: "Topic list \<Rightarrow> Topic \<Rightarrow> bool" where
  "has_topic [] topic = False"
| "has_topic (t # ts) topic = (if t = topic then True else has_topic ts topic)"

definition Subscribe :: "subscriber \<Rightarrow> Topic \<Rightarrow> goerr option \<times> subscriber" where
  "Subscribe s topic =
    (if has_topic (topics s) topic then (None, s)
     else (None, s\<lparr>topics := topics s @ [topic]\<rparr>))"

definition SubscriberSubscribe :: "subscriber \<Rightarrow> any \<Rightarrow> goerr option \<times> subscriber" where
  "SubscriberSubscribe s topic = (case topic of
       NoTopic v \<Rightarrow> (Some ErrInvalidTopic, s)
     | TopicValue t \<Rightarrow> Subscribe s t)"

lemma has_topic_iff: "has_topic ts t \<longleftrightarrow> t \<in> set ts"
  by (induction ts) auto

lemma Subscribe_simps:
  "t \<in> set (topics s) \<Longrightarrow> Subscribe s t = (None, s)"
  "t \<notin> set (topics s) \<Longrightarrow> Subscribe s t = (None, s\<lparr>topics := topics s @ [t]\<rparr>)"
  by (simp_all add: Subscribe_def has_topic_iff)

interpretation default_subscriber:
  topic_accumulator NewSubscriber "\<lambda>t s. snd (Subscribe s t)" Topics
  by unfold_locales (simp_all add: NewSubscriber_def Topics_def Subscribe_simps)

text \<open>
  Subscribing any sequence of topics to a new subscriber leaves exactly the topics of
  the sequence, each once, so that \<open>Topics()\<close> has as many entries as there are different
  topics.
\<close>

lemma subscriber_collects_each_topic_once:
  fixes ts :: "Topic list"
  defines "s \<equiv> fold (\<lambda>t s. snd (Subscribe s t)) ts NewSubscriber"
  shows "set (Topics s) = set ts \<and> distinct (Topics s) \<and> length (Topics s) = card (set ts)"
  unfolding s_def
  using default_subscriber.accumulated_topics [of ts] default_subscriber.accumulated_count [of ts]
  by blast

text \<open>
  \<open>SubscriberSubscribe\<close> rejects a value that is no \<open>Topic\<close> with \<open>ErrInvalidTopic\<close> and
  leaves the subscriber as it was; it accepts every \<open>Topic\<close>, after which the topic is
  present and the topics there before keep their places.
\<close>

lemma SubscriberSubscribe_spec:
  "SubscriberSubscribe s v =
    (case v of
       NoTopic n \<Rightarrow> (Some (ErrNew ''invalid topic''), s)
     | TopicValue t \<Rightarrow>
         (None, s\<lparr>topics := topics s @ (if t \<in> set (topics s) then [] else [t])\<rparr>))"
  by (cases v) (simp_all add: SubscriberSubscribe_def Subscribe_def has_topic_iff ErrInvalidTopic_def)

end
