(* ===== verification/RedisHandler.thy ===== *)
theory RedisHandler
  imports Connection TopicSubscriber
begin

text \<open>
  The handler that feeds subscriptions from Redis (\<open>redis/handler.go\<close>): starting, stopping and
  closing.  The reading goroutine it starts is in theory \<open>RedisReader\<close>.
\<close>

subsection \<open>State\<close>

datatype readerState = readerStateUnknown | readerStateRunning | readerStateClosed

text \<open>
  A \<open>subscriptionRedisReader\<close>; \<open>r_pubSubConn\<close> refers to a connection to Redis, \<open>None\<close> is nil,
  and \<open>r_subscriptionErrors\<close> is an \<open>int\<close> of 64 bits.
\<close>

record reader =
  r_topicsLen :: nat
  r_subscription :: Subscription
  r_state :: readerState
  r_pubSubConn :: "nat option"
  r_subscriptionErrors :: "64 word"

definition newSubscriptionRedisReader :: "Subscription \<Rightarrow> reader" where
  "newSubscriptionRedisReader subscription = \<lparr>r_topicsLen = 0, r_subscription = subscription,
     r_state = readerStateUnknown, r_pubSubConn = None, r_subscriptionErrors = 0\<rparr>"

text \<open>
  The part of the outside state of a connection (\<open>c_world\<close>) a \<open>redisSubscriptionHandler\<close> uses:
  the readers by address, the \<open>sync.Map\<close> from subscription ids to readers, as a list of entries
  in the order \<open>Range\<close> visits them, the goroutines it started, and the network.
\<close>

record 'n redis_world =
  rw_readers :: "reader list"
  rw_subscriptions :: "(string \<times> nat) list"
  rw_pumps :: "(nat \<times> subscriber) list"
  rw_net :: 'n

text \<open>\<open>graphql.SubscribeParams\<close>, but for the subscriber, and a field of a schema.\<close>

record SubscribeParams =
  sp_SubscriptionID :: string
  sp_Variables :: "go_map option"
  sp_OperationName :: string
  sp_Data :: Subscription

type_synonym 'n subscribe_function =
  "SubscribeParams \<Rightarrow> subscriber \<Rightarrow> 'n \<Rightarrow> goerr option call \<times> subscriber \<times> 'n"

record 'n subscription_field =
  f_Subscribe :: "'n subscribe_function option"

text \<open>
  The libraries: the fields of the subscription type of a schema (which panics for a nil
  schema or one without subscriptions), the execution of a document for a message of a channel,
  and Redis.
\<close>

record 'n redis_lib =
  schema_fields :: "nat option \<Rightarrow> (string \<Rightarrow> 'n subscription_field option) call"
  gq_Execute :: "Subscription \<Rightarrow> string \<Rightarrow> string \<Rightarrow> 'n \<Rightarrow> (go_value \<times> string list) \<times> 'n"
  rl_Dial :: "'n \<Rightarrow> (goerr + nat) \<times> 'n"
  rl_Err :: "nat \<Rightarrow> 'n \<Rightarrow> goerr option \<times> 'n"
  rl_Subscribe :: "nat \<Rightarrow> Topic list \<Rightarrow> 'n \<Rightarrow> goerr option \<times> 'n"
  rl_Close :: "nat \<Rightarrow> 'n \<Rightarrow> goerr option \<times> 'n"

text \<open>
  The dialer (\<open>redis/dialer.go\<close>): it keeps what it was made with and gives all of it to the
  Redis library, \<open>redis_Dial\<close>, each time it is asked.
\<close>

record 'o dialer =
  d_protocol :: string
  d_address :: string
  d_options :: "'o list"

definition NewDialer :: "string \<Rightarrow> string \<Rightarrow> 'o list \<Rightarrow> 'o dialer" where
  "NewDialer protocol address options = \<lparr>d_protocol = protocol, d_address = address, d_options = options\<rparr>"

definition dialer_Dial ::
  "(string \<Rightarrow> string \<Rightarrow> 'o list \<Rightarrow> 'n \<Rightarrow> (goerr + nat) \<times> 'n) \<Rightarrow> 'o dialer \<Rightarrow> 'n \<Rightarrow> (goerr + nat) \<times> 'n" where
  "dialer_Dial redis_Dial d = redis_Dial (d_protocol d) (d_address d) (d_options d)"

subsection \<open>Readers and the table of subscriptions\<close>

definition reader_at :: "nat \<Rightarrow> 'n redis_world \<Rightarrow> reader" where
  "reader_at i w = rw_readers w ! i"

definition change_reader :: "nat \<Rightarrow> (reader \<Rightarrow> reader) \<Rightarrow> 'n redis_world \<Rightarrow> 'n redis_world" where
  "change_reader i f w = w\<lparr>rw_readers := (rw_readers w)[i := f (rw_readers w ! i)]\<rparr>"

definition load_reader :: "'n redis_world \<Rightarrow> string \<Rightarrow> nat option" where
  "load_reader w k = map_of (rw_subscriptions w) k"

fun put_entry :: "string \<Rightarrow> nat \<Rightarrow> (string \<times> nat) list \<Rightarrow> (string \<times> nat) list" where
  "put_entry k i [] = [(k, i)]"
| "put_entry k i ((k', j) # es) = (if k' = k then (k, i) # es else (k', j) # put_entry k i es)"

definition store_reader :: "string \<times> nat \<Rightarrow> 'n redis_world \<Rightarrow> 'n redis_world" where
  "store_reader e w = w\<lparr>rw_subscriptions := put_entry (fst e) (snd e) (rw_subscriptions w)\<rparr>"

text \<open>\<open>close\<close>: only the first close of a reader closes its connection to Redis.\<close>

definition reader_close :: "'n redis_lib \<Rightarrow> nat \<Rightarrow> 'n redis_world \<Rightarrow> 'n redis_world" where
  "reader_close L i w =
    (if r_state (reader_at i w) = readerStateClosed then w
     else let w = change_reader i (\<lambda>r. r\<lparr>r_state := readerStateClosed\<rparr>) w in
       case r_pubSubConn (reader_at i w) of
         None \<Rightarrow> w
       | Some k \<Rightarrow> (case rl_Close L k (rw_net w) of (err, n) \<Rightarrow>
           change_reader i (\<lambda>r. r\<lparr>r_pubSubConn := None\<rparr>) (w\<lparr>rw_net := n\<rparr>)))"

subsection \<open>The handler\<close>

definition subscribe_params :: "Subscription \<Rightarrow> SubscribeParams" where
  "subscribe_params s = \<lparr>sp_SubscriptionID = sub_ID s, sp_Variables = sub_Variables s,
     sp_OperationName = sub_OperationName s, sp_Data = s\<rparr>"

definition field_not_found :: "string \<Rightarrow> goerr" where
  "field_not_found field = ErrNew (''field 'subscriptions.'' @ field @ [CHR 39] @ '' was not found'')"

definition Subscribe_not_defined :: "string \<Rightarrow> goerr" where
  "Subscribe_not_defined field =
     ErrNew (CHR 39 # ''subscriptions.'' @ field @ ''.Subscribe'' @ [CHR 39] @ '' is not defined'')"

text \<open>
  The loop over the fields; an error returns from the function, and a subscribe function may
  panic.
\<close>

fun subscribe_fields ::
  "(string \<Rightarrow> 'n subscription_field option) \<Rightarrow> Subscription \<Rightarrow> string list \<Rightarrow> subscriber \<Rightarrow> 'n \<Rightarrow>
    (goerr + subscriber) call \<times> 'n" where
  "subscribe_fields fieldsMap s [] subscriber n = (Returns (Inr subscriber), n)"
| "subscribe_fields fieldsMap s (field # fs) subscriber n = (case fieldsMap field of
       None \<Rightarrow> (Returns (Inl (field_not_found field)), n)
     | Some f \<Rightarrow> (case f_Subscribe f of
           None \<Rightarrow> (Returns (Inl (Subscribe_not_defined field)), n)
         | Some fn \<Rightarrow> (case fn (subscribe_params s) subscriber n of
               (Raises p, subscriber, n) \<Rightarrow> (Raises p, n)
             | (Returns (Some err), subscriber, n) \<Rightarrow> (Returns (Inl err), n)
             | (Returns None, subscriber, n) \<Rightarrow> subscribe_fields fieldsMap s fs subscriber n)))"

definition redis_HandleSubscriptionStart ::
  "'n redis_lib \<Rightarrow> (Subscription, goerr option, 'n redis_world) go_method" where
  "redis_HandleSubscriptionStart L subscription w =
    (let i = length (rw_readers w);
         w = w\<lparr>rw_readers := rw_readers w @ [newSubscriptionRedisReader subscription]\<rparr>
     in case schema_fields L (sub_Schema subscription) of
          Raises p \<Rightarrow> (Raises p, w)
        | Returns fieldsMap \<Rightarrow>
            (case subscribe_fields fieldsMap subscription (sub_Fields subscription) NewSubscriber (rw_net w) of
               (Raises p, n) \<Rightarrow> (Raises p, w\<lparr>rw_net := n\<rparr>)
             | (Returns (Inl err), n) \<Rightarrow> (Returns (Some err), w\<lparr>rw_net := n\<rparr>)
             | (Returns (Inr subscriber), n) \<Rightarrow>
                 let w = store_reader (sub_ID subscription, i) (w\<lparr>rw_net := n\<rparr>) in
                 (Returns None, w\<lparr>rw_pumps := rw_pumps w @ [(i, subscriber)]\<rparr>)))"

definition redis_HandleSubscriptionStop ::
  "'n redis_lib \<Rightarrow> (Subscription, goerr option, 'n redis_world) go_method" where
  "redis_HandleSubscriptionStop L subscription w = (case load_reader w (sub_ID subscription) of
       None \<Rightarrow> (Returns (Some ErrSubscriptionNotFound), w)
     | Some i \<Rightarrow> (Returns None, reader_close L i w))"

definition close_readers :: "'n redis_lib \<Rightarrow> nat list \<Rightarrow> 'n redis_world \<Rightarrow> 'n redis_world" where
  "close_readers L is w = fold (reader_close L) is w"

definition redis_HandleWebsocketClose ::
  "'n redis_lib \<Rightarrow> (int \<times> string, goerr option, 'n redis_world) go_method" where
  "redis_HandleWebsocketClose L a w = (Returns None, close_readers L (map snd (rw_subscriptions w)) w)"

text \<open>What \<open>NewSubscriptionHandler\<close> returns, as the handlers of a connection see it.\<close>

definition redis_methods :: "'n redis_lib \<Rightarrow> (Subscription, 'n redis_world) methods" where
  "redis_methods L = no_methods\<lparr>
     HandleSubscriptionStart := Some (redis_HandleSubscriptionStart L),
     HandleSubscriptionStop := Some (redis_HandleSubscriptionStop L),
     HandleWebsocketClose := Some (redis_HandleWebsocketClose L)\<rparr>"

subsection \<open>Lemmas\<close>

lemma map_of_put_entry: "map_of (put_entry k i es) k' = (if k' = k then Some i else map_of es k')"
  by (induction k i es rule: put_entry.induct) auto

interpretation redis_table: keyed_table fst "\<lambda>w k. map_option (Pair k) (load_reader w k)" store_reader
  by unfold_locales (auto simp: load_reader_def store_reader_def map_of_put_entry)

lemma reader_close_simps [simp]:
  "rw_subscriptions (reader_close L i w) = rw_subscriptions w"
  "rw_pumps (reader_close L i w) = rw_pumps w"
  "length (rw_readers (reader_close L i w)) = length (rw_readers w)"
  by (auto simp: reader_close_def change_reader_def Let_def split: option.splits prod.splits)

lemma reader_close_state:
  "i < length (rw_readers w) \<Longrightarrow> r_state (reader_at j (reader_close L i w)) =
    (if j = i then readerStateClosed else r_state (reader_at j w))"
  by (auto simp: reader_close_def change_reader_def reader_at_def Let_def nth_list_update
      split: option.splits prod.splits)

lemma reader_close_other:
  "j \<noteq> i \<Longrightarrow> reader_at j (reader_close L i w) = reader_at j w"
  by (auto simp: reader_close_def change_reader_def reader_at_def Let_def
      split: option.splits prod.splits)

lemma close_readers_simps [simp]:
  "rw_subscriptions (close_readers L is w) = rw_subscriptions w"
  "rw_pumps (close_readers L is w) = rw_pumps w"
  "length (rw_readers (close_readers L is w)) = length (rw_readers w)"
  unfolding close_readers_def by (induction "is" arbitrary: w) auto

lemma close_readers_state:
  "set is \<subseteq> {..<length (rw_readers w)} \<Longrightarrow> r_state (reader_at j (close_readers L is w)) =
    (if j \<in> set is then readerStateClosed else r_state (reader_at j w))"
  unfolding close_readers_def by (induction "is" arbitrary: w) (auto simp: reader_close_state)

text \<open>
  An id has one entry in the table; every entry, and every goroutine, refers to a reader.
\<close>

definition readers_ok :: "'n redis_world \<Rightarrow> bool" where
  "readers_ok w \<longleftrightarrow> distinct (map fst (rw_subscriptions w)) \<and>
     (\<forall>e \<in> set (rw_subscriptions w). snd e < length (rw_readers w)) \<and>
     (\<forall>e \<in> set (rw_pumps w). fst e < length (rw_readers w))"

lemma set_put_entry: "set (put_entry k i es) \<subseteq> insert (k, i) (set es)"
  by (induction k i es rule: put_entry.induct) auto

lemma fst_put_entry: "fst ` set (put_entry k i es) = insert k (fst ` set es)"
  by (induction k i es rule: put_entry.induct) auto

lemma distinct_put_entry: "distinct (map fst es) \<Longrightarrow> distinct (map fst (put_entry k i es))"
  by (induction k i es rule: put_entry.induct) (auto simp: fst_put_entry)

lemma readers_ok_start:
  "readers_ok w \<Longrightarrow> readers_ok (snd (redis_HandleSubscriptionStart L x w))"
  using set_put_entry [of "sub_ID x" "length (rw_readers w)" "rw_subscriptions w"]
  by (auto simp: redis_HandleSubscriptionStart_def readers_ok_def store_reader_def Let_def less_Suc_eq
      distinct_put_entry
      split: call.splits prod.splits sum.splits)

lemma readers_ok_close: "readers_ok w \<Longrightarrow> readers_ok (reader_close L i w)"
  by (simp add: readers_ok_def)

lemma readers_ok_close_all: "readers_ok w \<Longrightarrow> readers_ok (close_readers L is w)"
  by (simp add: readers_ok_def)

lemma websocket_close_state:
  assumes "readers_ok w"
  shows "r_state (reader_at i (snd (redis_HandleWebsocketClose L a w))) =
    (if \<exists>k. load_reader w k = Some i then readerStateClosed else r_state (reader_at i w))"
proof -
  have "i \<in> set (map snd (rw_subscriptions w)) \<longleftrightarrow> (\<exists>k. load_reader w k = Some i)"
    using assms by (force simp: load_reader_def readers_ok_def)
  moreover have "set (map snd (rw_subscriptions w)) \<subseteq> {..<length (rw_readers w)}"
    using assms by (auto simp: readers_ok_def)
  ultimately show ?thesis
    by (simp only: redis_HandleWebsocketClose_def snd_conv close_readers_state)
qed

text \<open>
  A concrete library for examples: the schema has the fields \<open>news\<close> and \<open>alerts\<close>, which share
  a topic, and a field without a subscribe function; every call to Redis succeeds.
\<close>

definition topic_field :: "Topic list \<Rightarrow> 'n subscription_field" where
  "topic_field ts = \<lparr>f_Subscribe = Some (\<lambda>p s n. (Returns None, fold (\<lambda>t s. snd (Subscribe s t)) ts s, n))\<rparr>"

definition demo_redis :: "string list redis_lib" where
  "demo_redis = \<lparr>schema_fields = (\<lambda>s. Returns [''news'' \<mapsto> topic_field [StringTopic ''a''],
       ''alerts'' \<mapsto> topic_field [StringTopic ''a'', StringTopic ''b''],
       ''plain'' \<mapsto> \<lparr>f_Subscribe = None\<rparr>]),
     gq_Execute = (\<lambda>s ch m n. ((Some (JStr m), []), n)),
     rl_Dial = (\<lambda>n. (Inr 7, n @ [''dial''])), rl_Err = (\<lambda>k n. (None, n)),
     rl_Subscribe = (\<lambda>k ts n. (None, n @ [''subscribe''])), rl_Close = (\<lambda>k. note_event ''close'')\<rparr>"

definition demo_redis_world :: "string list redis_world" where
  "demo_redis_world = \<lparr>rw_readers = [], rw_subscriptions = [], rw_pumps = [], rw_net = []\<rparr>"

definition redis_sub :: "string list \<Rightarrow> Subscription" where
  "redis_sub fs = \<lparr>sub_ID = ''1'', sub_Query = ''q'', sub_Variables = None, sub_OperationName = '''',
     sub_Document = None, sub_Fields = fs, sub_Schema = Some 0, sub_Connection = Some 1\<rparr>"

definition one_reader :: "string list redis_world" where
  "one_reader = snd (redis_HandleSubscriptionStart demo_redis (redis_sub [''news'']) demo_redis_world)"

lemma one_reader_eq: "one_reader = \<lparr>rw_readers = [newSubscriptionRedisReader (redis_sub [''news''])],
    rw_subscriptions = [(''1'', 0)], rw_pumps = [(0, \<lparr>topics = [StringTopic ''a'']\<rparr>)], rw_net = []\<rparr>"
  by code_simp

lemma one_reader_ok: "readers_ok one_reader"
  by (simp add: one_reader_eq readers_ok_def)

subsection \<open>Properties\<close>

text \<open>
  The subscribe function of a field, called when the outside state is \<open>n\<close>, subscribes to the
  topics \<open>ts\<close> and reports no error.
\<close>

definition subscribes_to ::
  "(string \<Rightarrow> 'n subscription_field option) \<Rightarrow> Subscription \<Rightarrow> 'n \<Rightarrow> string \<Rightarrow> Topic list \<Rightarrow> bool" where
  "subscribes_to fm x n f ts \<longleftrightarrow> (\<exists>F fn. fm f = Some F \<and> f_Subscribe F = Some fn \<and>
     (\<forall>s. fn (subscribe_params x) s n = (Returns None, fold (\<lambda>t s. snd (Subscribe s t)) ts s, n)))"

lemma subscribe_fields_topics:
  assumes "\<And>f. f \<in> set fs \<Longrightarrow> subscribes_to fm x n f (ts f)"
  shows "subscribe_fields fm x fs s n =
    (Returns (Inr (fold (\<lambda>t s. snd (Subscribe s t)) (concat (map ts fs)) s)), n)"
  using assms
proof (induction fs arbitrary: s)
  case (Cons f fs)
  obtain F fn where "fm f = Some F" "f_Subscribe F = Some fn"
    "\<And>s. fn (subscribe_params x) s n = (Returns None, fold (\<lambda>t s. snd (Subscribe s t)) (ts f) s, n)"
    using Cons.prems [of f] by (auto simp: subscribes_to_def)
  with Cons show ?case by simp
qed simp

lemma subscribe_fields_append:
  "subscribe_fields fm x (fs @ gs) s n = (case subscribe_fields fm x fs s n of
     (Returns (Inr s), n) \<Rightarrow> subscribe_fields fm x gs s n | r \<Rightarrow> r)"
  by (induction fs arbitrary: s n) (auto split: option.splits prod.splits call.splits sum.splits)

lemma redis_start_run:
  assumes "schema_fields L (sub_Schema x) = Returns fm"
    and "\<And>f. f \<in> set (sub_Fields x) \<Longrightarrow> subscribes_to fm x (rw_net w) f (ts f)"
  shows "\<exists>s w'. redis_HandleSubscriptionStart L x w = (Returns None, w') \<and>
    (\<forall>k. load_reader w' k = (if k = sub_ID x then Some (length (rw_readers w)) else load_reader w k)) \<and>
    rw_readers w' = rw_readers w @ [newSubscriptionRedisReader x] \<and>
    rw_pumps w' = rw_pumps w @ [(length (rw_readers w), s)] \<and>
    set (Topics s) = (\<Union>f \<in> set (sub_Fields x). set (ts f)) \<and> distinct (Topics s)"
proof -
  let ?ts = "concat (map ts (sub_Fields x))"
  let ?s = "fold (\<lambda>t s. snd (Subscribe s t)) ?ts NewSubscriber"
  have "set (Topics ?s) = (\<Union>f \<in> set (sub_Fields x). set (ts f)) \<and> distinct (Topics ?s)"
    using default_subscriber.accumulated_topics [of ?ts] by auto
  then show ?thesis
    using assms(1) subscribe_fields_topics [OF assms(2)]
    by (simp add: redis_HandleSubscriptionStart_def Let_def load_reader_def store_reader_def
        map_of_put_entry)
qed

text \<open>
  A subscription with a field the schema lacks, or whose subscribe function is missing,
  is refused with an error that names the field; no reader enters the table and no goroutine
  starts, though the fields before it have been subscribed.
\<close>

lemma start_refuses_unknown_field:
  assumes "schema_fields L (sub_Schema x) = Returns fm" and "sub_Fields x = pre @ f # post"
    and "\<And>g. g \<in> set pre \<Longrightarrow> subscribes_to fm x (rw_net w) g (ts g)"
    and "case fm f of None \<Rightarrow> True | Some F \<Rightarrow> f_Subscribe F = None"
  shows "\<exists>w'. redis_HandleSubscriptionStart L x w =
      (Returns (Some (if fm f = None then field_not_found f else Subscribe_not_defined f)), w') \<and>
    rw_subscriptions w' = rw_subscriptions w \<and> rw_pumps w' = rw_pumps w"
  using assms(1,2,4) subscribe_fields_topics [OF assms(3)]
  by (auto simp: redis_HandleSubscriptionStart_def Let_def subscribe_fields_append split: option.splits)

lemma start_refuses_unknown_field_witness:
  "fst (redis_HandleSubscriptionStart demo_redis (redis_sub [''news'', ''plain'']) demo_redis_world) =
     Returns (Some (ErrNew ([CHR 39] @ ''subscriptions.plain.Subscribe'' @ [CHR 39] @ '' is not defined'')))"
proof -
  let ?x = "redis_sub [''news'', ''plain'']"
  obtain fm where fm: "schema_fields demo_redis (sub_Schema ?x) = Returns fm"
    "fm ''news'' = Some (topic_field [StringTopic ''a''])" "fm ''plain'' = Some \<lparr>f_Subscribe = None\<rparr>"
    by (simp add: demo_redis_def)
  have "subscribes_to fm ?x n g [StringTopic ''a'']" if "g \<in> set [''news'']" for n g
    using that fm(2) by (auto simp: subscribes_to_def topic_field_def)
  from start_refuses_unknown_field [OF fm(1), where pre = "[''news'']" and f = "''plain''" and
      post = "[]" and ts = "\<lambda>f. [StringTopic ''a'']" and w = demo_redis_world] this fm(3)
  show ?thesis by (auto simp: redis_sub_def Subscribe_not_defined_def)
qed

text \<open>
  Stopping a subscription closes the reader the table has for its id, and no other
  reader; stopping an id that was never started is \<open>ErrSubscriptionNotFound\<close>.  The entry stays
  in the table, so that stopping again succeeds and changes nothing.
\<close>

lemma stop_closes_the_reader:
  assumes "readers_ok w"
  shows "case load_reader w (sub_ID x) of
      None \<Rightarrow> redis_HandleSubscriptionStop L x w = (Returns (Some ErrSubscriptionNotFound), w)
    | Some i \<Rightarrow> \<exists>w'. redis_HandleSubscriptionStop L x w = (Returns None, w') \<and>
        r_state (reader_at i w') = readerStateClosed \<and>
        (\<forall>j. j \<noteq> i \<longrightarrow> reader_at j w' = reader_at j w) \<and>
        redis_HandleSubscriptionStop L x w' = (Returns None, w')"
proof (cases "load_reader w (sub_ID x)")
  case (Some i)
  then have "i < length (rw_readers w)"
    using assms by (auto simp: load_reader_def readers_ok_def dest!: map_of_SomeD)
  then have closed: "r_state (reader_at i (reader_close L i w)) = readerStateClosed"
    by (simp add: reader_close_state)
  then have "reader_close L i (reader_close L i w) = reader_close L i w"
    by (simp add: reader_close_def [of L i "reader_close L i w"])
  with Some closed show ?thesis
    by (simp add: redis_HandleSubscriptionStop_def load_reader_def reader_close_other)
qed (simp add: redis_HandleSubscriptionStop_def)

text \<open>
  Starting a second subscription under an id that is in use puts the new reader in the
  place of the old one, whose goroutine goes on: neither stopping the subscription nor closing
  the websocket closes the old reader.
\<close>

lemma restart_orphans_the_first_reader:
  assumes "readers_ok w" and "load_reader w (sub_ID x) = Some i"
    and "\<And>k. load_reader w k = Some i \<Longrightarrow> k = sub_ID x"
    and "redis_HandleSubscriptionStart L x w = (Returns None, w1)"
  shows "r_state (reader_at i (snd (redis_HandleSubscriptionStop L x w1))) = r_state (reader_at i w) \<and>
    r_state (reader_at i (snd (redis_HandleWebsocketClose L a w1))) = r_state (reader_at i w)"
proof -
  let ?i = "length (rw_readers w)"
  have i: "i < ?i"
    using assms(1,2) by (auto simp: load_reader_def readers_ok_def dest!: map_of_SomeD)
  have ok: "readers_ok w1" using readers_ok_start [OF assms(1), of L x] assms(4) by simp
  have load: "\<forall>k. load_reader w1 k = (if k = sub_ID x then Some ?i else load_reader w k)"
    and len: "?i < length (rw_readers w1)" and old: "reader_at i w1 = reader_at i w"
    using assms(4) i
    by (auto simp: redis_HandleSubscriptionStart_def Let_def load_reader_def store_reader_def
        map_of_put_entry reader_at_def nth_append split: call.splits prod.splits sum.splits)
  have "\<nexists>k. load_reader w1 k = Some i" using load assms(3) i by auto
  then show ?thesis
    using load i len old reader_close_state [of ?i w1 i L]
      websocket_close_state [OF ok, of i L a]
    by (simp add: redis_HandleSubscriptionStop_def)
qed

lemma restart_orphans_the_first_reader_witness:
  "r_state (reader_at 0 (snd (redis_HandleSubscriptionStop demo_redis (redis_sub [''news''])
     (snd (redis_HandleSubscriptionStart demo_redis (redis_sub [''news'']) one_reader))))) = readerStateUnknown"
proof -
  let ?x = "redis_sub [''news'']"
  let ?w = "snd (redis_HandleSubscriptionStart demo_redis ?x one_reader)"
  have "fst (redis_HandleSubscriptionStart demo_redis ?x one_reader) = Returns None"
    by code_simp
  then have start: "redis_HandleSubscriptionStart demo_redis ?x one_reader = (Returns None, ?w)"
    by (metis prod.collapse)
  have entry: "load_reader one_reader (sub_ID ?x) = Some 0"
    and only: "\<And>k. load_reader one_reader k = Some 0 \<Longrightarrow> k = sub_ID ?x"
    by (auto simp: one_reader_eq load_reader_def redis_sub_def split: if_splits)
  have "r_state (reader_at 0 one_reader) = readerStateUnknown"
    by (simp add: one_reader_eq reader_at_def newSubscriptionRedisReader_def)
  then show ?thesis
    using restart_orphans_the_first_reader [OF one_reader_ok entry only start] by simp
qed

end
