(* ===== verification/RedisReader.thy ===== *)
theory RedisReader
  imports RedisHandler Processing
begin

text \<open>
  The goroutine that reads from Redis for one subscription (\<open>redis/reader.go\<close>).  It works on the
  connection of the subscription; its own state is part of the outside state \<open>c_world\<close> of the
  connection (theory \<open>RedisHandler\<close>).  Each of its two nested loops is given by its body.
\<close>

type_synonym ('a, 'n) rprog = "('a, 'n redis_world) cprog"

definition graphqlWSContextKey_String :: "string \<Rightarrow> string" where
  "graphqlWSContextKey_String key = ''__graphql.context.key.'' @ key"

subsection \<open>Access to the reader and to Redis\<close>

text \<open>
  Taking the reader's mutex, a call into a library, and a read of a field without the mutex
  are points where other goroutines may run.
\<close>

definition on_world :: "('n redis_world \<Rightarrow> 'n redis_world) \<Rightarrow> 'n redis_world conn \<Rightarrow> 'n redis_world conn" where
  "on_world f c = c\<lparr>c_world := f (c_world c)\<rparr>"

definition pause :: "('n redis_world conn \<Rightarrow> ('a, 'n) rprog) \<Rightarrow> 'n redis_world conn \<Rightarrow> ('a, 'n) rprog" where
  "pause m = wait_for (\<lambda>_. True) m"

definition netcall :: "('n \<Rightarrow> 'r \<times> 'n) \<Rightarrow> 'n redis_world conn \<Rightarrow> ('r, 'n) rprog" where
  "netcall f = pause (\<lambda>c. case f (rw_net (c_world c)) of (r, n) \<Rightarrow>
     Ret r (on_world (\<lambda>w. w\<lparr>rw_net := n\<rparr>) c))"

definition reader_getState :: "nat \<Rightarrow> 'n redis_world conn \<Rightarrow> (readerState, 'n) rprog" where
  "reader_getState i = pause (\<lambda>c. Ret (r_state (reader_at i (c_world c))) c)"

definition reader_setState :: "nat \<Rightarrow> readerState \<Rightarrow> 'n redis_world conn \<Rightarrow> (unit, 'n) rprog" where
  "reader_setState i v = pause (\<lambda>c. Ret () (on_world (change_reader i (\<lambda>r. r\<lparr>r_state := v\<rparr>)) c))"

text \<open>The deferred close of the local \<open>pubSubConn\<close>.\<close>

definition close_pubSub :: "'n redis_lib \<Rightarrow> nat \<Rightarrow> 'n redis_world conn \<Rightarrow> 'n redis_world conn" where
  "close_pubSub L k = on_world (\<lambda>w. w\<lparr>rw_net := snd (rl_Close L k (rw_net w))\<rparr>)"

subsection \<open>\<open>readPump\<close> and \<open>readLoop\<close>\<close>

definition redis_readPump_start :: "nat \<Rightarrow> 'n redis_world conn \<Rightarrow> (unit, 'n) rprog" where
  "redis_readPump_start i = reader_setState i readerStateRunning"

text \<open>
  Where a turn of the loop of \<open>readPump\<close> leads: the loop ends, the loop goes on (\<open>readLoop\<close> has
  returned), or \<open>readLoop\<close> is in its own loop with its local \<open>pubSubConn\<close>.
\<close>

datatype turn = ReaderDone | Again | Listening nat

text \<open>A failed subscription: after more than three in a row, the connection is closed.\<close>

definition subscription_failed ::
  "'n redis_world env \<Rightarrow> 'n redis_lib \<Rightarrow> nat \<Rightarrow> nat \<Rightarrow> 'n redis_world conn \<Rightarrow> (turn, 'n) rprog" where
  "subscription_failed E L i k c =
    (let c = on_world (change_reader i (\<lambda>r. r\<lparr>r_subscriptionErrors := r_subscriptionErrors r + 1\<rparr>)) c
     in finally_do
       (if sint (r_subscriptionErrors (reader_at i (c_world c))) > 3
        then andthen (Close E c) (\<lambda>_ c. Ret Again c) else Ret Again c)
       (close_pubSub L k))"

definition readLoop_subscribe ::
  "'n redis_world env \<Rightarrow> 'n redis_lib \<Rightarrow> nat \<Rightarrow> subscriber \<Rightarrow> nat \<Rightarrow> 'n redis_world conn \<Rightarrow> (turn, 'n) rprog" where
  "readLoop_subscribe E L i subscriber k c =
    (let topics = Topics subscriber;
         c = on_world (change_reader i (\<lambda>r. r\<lparr>r_topicsLen := length topics\<rparr>)) c
     in andthen (netcall (rl_Subscribe L k topics) c) (\<lambda>err c. case err of
          Some e \<Rightarrow> subscription_failed E L i k c
        | None \<Rightarrow> Ret (Listening k) (on_world (change_reader i (\<lambda>r.
            r\<lparr>r_subscriptionErrors := 0, r_pubSubConn := Some k\<rparr>)) c)))"

definition readLoop_start ::
  "'n redis_world env \<Rightarrow> 'n redis_lib \<Rightarrow> nat \<Rightarrow> subscriber \<Rightarrow> 'n redis_world conn \<Rightarrow> (turn, 'n) rprog" where
  "readLoop_start E L i subscriber c = andthen (reader_getState i c) (\<lambda>st c.
     if st = readerStateClosed then Ret ReaderDone c
     else andthen (netcall (rl_Dial L) c) (\<lambda>conn c. case conn of
         Inl err \<Rightarrow> Ret Again c
       | Inr k \<Rightarrow> andthen (netcall (rl_Err L k) c) (\<lambda>err c. case err of
             Some e \<Rightarrow> Ret Again c
           | None \<Rightarrow> readLoop_subscribe E L i subscriber k c)))"

text \<open>
  What \<open>Receive\<close> returns.  \<open>redis.Execute\<close> is given the subscription, for its operation name,
  document and variables, and the context, in which the channel is bound to the data.
\<close>

datatype received =
    RedisSubscription nat
  | RedisMessage string string
  | RedisError goerr
  | OtherReply

definition readIteration ::
  "'n redis_world env \<Rightarrow> 'n redis_lib \<Rightarrow> nat \<Rightarrow> received \<Rightarrow> 'n redis_world conn \<Rightarrow> (goerr option, 'n) rprog" where
  "readIteration E L i m = pause (\<lambda>c. case r_pubSubConn (reader_at i (c_world c)) of
       None \<Rightarrow> Panic PNilDeref c
     | Some k \<Rightarrow> pause (\<lambda>c. case m of
           RedisSubscription count \<Rightarrow> Ret None c
         | RedisMessage channel data \<Rightarrow>
             if c_Schema c = None then Panic PNilDeref c
             else let s = r_subscription (reader_at i (c_world c)) in
               andthen (netcall (gq_Execute L s channel data) c) (\<lambda>r c.
                 andthen (Subscription_SendData E s
                   \<lparr>data_Data = fst r, data_Errors = ErrorsFromGraphQLErrors (snd r)\<rparr> c)
                   (\<lambda>err c. Ret None c))
         | RedisError e \<Rightarrow> Ret (Some e) c
         | OtherReply \<Rightarrow> Ret None c) c)"

text \<open>One turn of the loop of \<open>readLoop\<close>, with the deferred close if it returns or panics.\<close>

definition readLoop_turn ::
  "'n redis_world env \<Rightarrow> 'n redis_lib \<Rightarrow> nat \<Rightarrow> nat \<Rightarrow> received \<Rightarrow> 'n redis_world conn \<Rightarrow> (turn, 'n) rprog" where
  "readLoop_turn E L i k m c =
    andthen (catch_panic
      (andthen (reader_getState i c) (\<lambda>st c.
         if st = readerStateClosed then Ret False c
         else andthen (readIteration E L i m c) (\<lambda>err c. Ret (err = None) c)))
      (\<lambda>p c. Panic p (close_pubSub L k c)))
    (\<lambda>go_on c. if go_on then Ret (Listening k) c else Ret Again (close_pubSub L k c))"

subsection \<open>Run alone\<close>

lemma run_pause [run_simps]: "run (pause m c) = run (m c)"
  by (simp add: pause_def wait_for_def)

lemma run_netcall [run_simps]:
  "run (netcall f c) = (case f (rw_net (c_world c)) of (r, n) \<Rightarrow>
     Done r (on_world (\<lambda>w. w\<lparr>rw_net := n\<rparr>) c))"
  by (simp add: netcall_def run_simps split: prod.splits)

lemma run_reader_state [run_simps]:
  "run (reader_getState i c) = Done (r_state (reader_at i (c_world c))) c"
  "run (reader_setState i v c) = Done () (on_world (change_reader i (\<lambda>r. r\<lparr>r_state := v\<rparr>)) c)"
  by (simp_all add: reader_getState_def reader_setState_def run_simps)

lemma change_reader_simps [simp]:
  "rw_net (change_reader i f w) = rw_net w"
  "rw_subscriptions (change_reader i f w) = rw_subscriptions w"
  "length (rw_readers (change_reader i f w)) = length (rw_readers w)"
  "i < length (rw_readers w) \<Longrightarrow> reader_at i (change_reader i f w) = f (reader_at i w)"
  "reader_at i (w\<lparr>rw_net := n\<rparr>) = reader_at i w"
  by (simp_all add: change_reader_def reader_at_def)

lemma on_world_simps [simp]:
  "c_world (on_world f c) = f (c_world c)" "c_state (on_world f c) = c_state c"
  "c_config (on_world f c) = c_config c" "c_outgoing (on_world f c) = c_outgoing c"
  "c_Schema (on_world f c) = c_Schema c" "on_world f (on_world g c) = on_world (\<lambda>w. f (g w)) c"
  "idle (on_world f c) = idle c"
  by (simp_all add: on_world_def idle_def)

lemma Close_state:
  assumes "idle c" and "c_state c \<noteq> connStateClosed" and "WriteTimeout (c_config c) = Some d"
  shows "c_state (outcome_state (run (Close E c))) =
    (if fst (ws_WriteControl E CloseMessage d (c_world c)) = None then connStateClosed else c_state c)"
proof -
  let ?c = "c\<lparr>c_world := snd (ws_WriteControl E CloseMessage d (c_world c))\<rparr>"
  have "\<not> c_wlock c" and idle: "idle ?c" using assms(1) by (simp_all add: idle_def)
  then have "run (Close E c) = (case fst (ws_WriteControl E CloseMessage d (c_world c)) of
      Some e \<Rightarrow> Done (Some e) ?c | None \<Rightarrow> run (close E ?c))"
    using assms(2,3)
    by (simp add: Close_def run_andthen run_getState bind_outcome_def extcall_def split_beta split: option.split)
  with idle show ?thesis using idle_after_close by (auto split: option.split)
qed

subsection \<open>Properties\<close>

text \<open>A reader of this connection that is running and subscribed.\<close>

definition listening :: "nat \<Rightarrow> nat \<Rightarrow> 'n redis_world conn \<Rightarrow> bool" where
  "listening i k c \<longleftrightarrow> i < length (rw_readers (c_world c)) \<and>
     r_state (reader_at i (c_world c)) \<noteq> readerStateClosed \<and>
     r_pubSubConn (reader_at i (c_world c)) = Some k"

text \<open>A connection with one reader, for examples.\<close>

definition redis_env :: "string list redis_world env" where
  "redis_env = \<lparr>ws_WriteJSON = (\<lambda>j w. (None, w)), ws_WriteMessage = (\<lambda>f w. (None, w)),
     ws_WriteControl = (\<lambda>f d w. (None, w)), ws_Close = (\<lambda>w. (None, w)),
     ws_SetReadDeadline = (\<lambda>d w. (None, w)), ws_SetWriteDeadline = (\<lambda>d w. (None, w)),
     ws_SetReadLimit = (\<lambda>l w. ((), w)), gq_Parse = (\<lambda>q. Inr example_document),
     gq_IsValid = (\<lambda>s d. True), other_errors = (\<lambda>e. None),
     impls = (\<lambda>n. redis_methods demo_redis)\<rparr>"

definition redis_conn :: "(reader \<Rightarrow> reader) \<Rightarrow> string list redis_world conn" where
  "redis_conn f = (snd (NewConn (Some 0) demo_config 0 (change_reader 0 f one_reader)))
     \<lparr>c_state := connStateEstablished\<rparr>"

lemmas redis_demo_defs = redis_env_def redis_conn_def demo_redis_def NewConn_def one_reader_eq
  change_reader_def reader_at_def newSubscriptionRedisReader_def demo_config_def

abbreviation subscribed :: "reader \<Rightarrow> reader" where
  "subscribed r \<equiv> r\<lparr>r_state := readerStateRunning, r_pubSubConn := Some 7\<rparr>"

lemma listening_redis_conn: "listening 0 7 (redis_conn subscribed)"
  by (simp add: listening_def redis_demo_defs)

lemma idle_redis_conn: "idle (redis_conn f)"
  by (simp add: redis_conn_def idle_def NewConn_def)

text \<open>
  A message that arrives from Redis for a listening reader is executed against the
  document of its subscription, and the result is queued for the client as one data message
  with the id of the subscription; the reader goes on listening and nothing else of the
  connection changes.
\<close>

lemma redis_message_reaches_the_client:
  assumes "listening i k c" and "c_Schema c \<noteq> None"
    and "gq_Execute L (r_subscription (reader_at i (c_world c))) channel data (rw_net (c_world c)) =
      ((result, errs), n)"
    and "marshal_GQLDataObject (other_errors E)
      \<lparr>data_Data = result, data_Errors = ErrorsFromGraphQLErrors errs\<rparr> = Some payload"
    and "\<not> chan_closed (c_outgoing c)" and "has_room (c_outgoing c)"
  shows "run (readLoop_turn E L i k (RedisMessage channel data) c) = Done (Listening k)
    (c\<lparr>c_world := (c_world c)\<lparr>rw_net := n\<rparr>, c_outgoing := chan_push (Msg
       \<lparr>msg_ID = sub_ID (r_subscription (reader_at i (c_world c))), msg_Type = ''data'',
        msg_Payload = Some payload\<rparr>) (c_outgoing c)\<rparr>)"
  using assms
  by (simp add: readLoop_turn_def readIteration_def listening_def run_simps Let_def on_world_def
      Subscription_SendData_def SendData_def has_room_def can_send_def gql_type_defs
      split: option.splits)

lemma redis_message_reaches_the_client_witness:
  "chan_buf (c_outgoing (outcome_state (run (readLoop_turn redis_env demo_redis 0 7
     (RedisMessage ''a'' ''hello'') (redis_conn subscribed))))) =
   [Msg \<lparr>msg_ID = ''1'', msg_Type = ''data'', msg_Payload = Some (JObj [(''data'', JStr ''hello'')])\<rparr>]"
proof -
  let ?c = "redis_conn subscribed"
  have e: "gq_Execute demo_redis (r_subscription (reader_at 0 (c_world ?c))) ''a'' ''hello''
      (rw_net (c_world ?c)) = ((Some (JStr ''hello''), []), [])"
    by (simp add: redis_demo_defs)
  have m: "marshal_GQLDataObject (other_errors redis_env) \<lparr>data_Data = Some (JStr ''hello''),
      data_Errors = ErrorsFromGraphQLErrors []\<rparr> = Some (JObj [(''data'', JStr ''hello'')])"
    by (simp add: marshal_GQLDataObject_def ErrorsFromGraphQLErrors_def)
  have o: "c_Schema ?c \<noteq> None" "\<not> chan_closed (c_outgoing ?c)" "has_room (c_outgoing ?c)"
    by (simp_all add: redis_conn_def NewConn_def has_room_def)
  show ?thesis
    using redis_message_reaches_the_client [OF listening_redis_conn o(1) e m o(2,3)]
    by (simp add: redis_demo_defs redis_sub_def make_chan_def chan_push_def)
qed

text \<open>
  What comes of an attempt of \<open>readLoop\<close> to subscribe: it does not get as far, Redis refuses, or
  Redis accepts; and what becomes of the network.
\<close>

datatype subscribe_result = NotTried | Refused | Accepted

definition subscribe_try :: "'n redis_lib \<Rightarrow> subscriber \<Rightarrow> 'n \<Rightarrow> subscribe_result \<times> 'n" where
  "subscribe_try L subscriber n = (case rl_Dial L n of
       (Inl e, n) \<Rightarrow> (NotTried, n)
     | (Inr k, n) \<Rightarrow> (case rl_Err L k n of
           (Some e, n) \<Rightarrow> (NotTried, n)
         | (None, n) \<Rightarrow> (case rl_Subscribe L k (Topics subscriber) n of
               (Some e, n) \<Rightarrow> (Refused, n)
             | (None, n) \<Rightarrow> (Accepted, n))))"

text \<open>
  How many of the last attempts Redis refused in a row; \<open>ns\<close> are the states of the network in which
  the attempts began.
\<close>

definition refused_in_a_row :: "'n redis_lib \<Rightarrow> subscriber \<Rightarrow> 'n list \<Rightarrow> nat" where
  "refused_in_a_row L subscriber ns = foldl (\<lambda>k n. case fst (subscribe_try L subscriber n) of
       NotTried \<Rightarrow> k | Refused \<Rightarrow> k + 1 | Accepted \<Rightarrow> 0) 0 ns"

text \<open>The attempts, one after the other; the network may have changed before each of them.\<close>

definition attempt ::
  "'n redis_world env \<Rightarrow> 'n redis_lib \<Rightarrow> nat \<Rightarrow> subscriber \<Rightarrow> 'n redis_world conn \<Rightarrow> 'n \<Rightarrow> 'n redis_world conn" where
  "attempt E L i subscriber c n =
     outcome_state (run (readLoop_start E L i subscriber (on_world (\<lambda>w. w\<lparr>rw_net := n\<rparr>) c)))"

definition attempts ::
  "'n redis_world env \<Rightarrow> 'n redis_lib \<Rightarrow> nat \<Rightarrow> subscriber \<Rightarrow> 'n redis_world conn \<Rightarrow> 'n list \<Rightarrow> 'n redis_world conn" where
  "attempts E L i subscriber c ns = foldl (attempt E L i subscriber) c ns"

text \<open>The outside state when the reader has counted the refusal.\<close>

definition refused_world :: "nat \<Rightarrow> subscriber \<Rightarrow> 'n \<Rightarrow> 'n redis_world \<Rightarrow> 'n redis_world" where
  "refused_world i subscriber n w = (change_reader i (\<lambda>r. r\<lparr>r_topicsLen := length (Topics subscriber),
     r_subscriptionErrors := r_subscriptionErrors r + 1\<rparr>) w)\<lparr>rw_net := n\<rparr>"

lemma attempt_refused:
  assumes "i < length (rw_readers (c_world c))" and "r_state (reader_at i (c_world c)) \<noteq> readerStateClosed"
    and "subscribe_try L subscriber n = (Refused, n')"
  shows "\<exists>k. attempt E L i subscriber c n =
    outcome_state (run (let c = c\<lparr>c_world := refused_world i subscriber n' (c_world c)\<rparr> in finally_do
       (if sint (r_subscriptionErrors (reader_at i (c_world c))) > 3
        then andthen (Close E c) (\<lambda>_ c. Ret Again c) else Ret Again c) (close_pubSub L k)))"
proof -
  obtain k n1 n2 e where n: "rl_Dial L n = (Inr k, n1)" "rl_Err L k n1 = (None, n2)"
    "rl_Subscribe L k (Topics subscriber) n2 = (Some e, n')"
    using assms(3) by (auto simp: subscribe_try_def split: prod.splits sum.splits option.splits)
  have w: "change_reader i (\<lambda>r. r\<lparr>r_subscriptionErrors := r_subscriptionErrors r + 1\<rparr>)
      ((change_reader i (\<lambda>r. r\<lparr>r_topicsLen := length (Topics subscriber)\<rparr>) ((c_world c)\<lparr>rw_net := n2\<rparr>))\<lparr>rw_net := n'\<rparr>) =
    refused_world i subscriber n' (c_world c)"
    using assms(1) by (simp add: refused_world_def change_reader_def)
  show ?thesis
    using assms(1,2) n
    by (intro exI [of _ k]) (simp add: attempt_def readLoop_start_def readLoop_subscribe_def run_simps
        subscription_failed_def on_world_def w Let_def)
qed

lemma attempt_not_tried:
  assumes "i < length (rw_readers (c_world c))" and "r_state (reader_at i (c_world c)) \<noteq> readerStateClosed"
    and "subscribe_try L subscriber n = (NotTried, n')"
  shows "attempt E L i subscriber c n = c\<lparr>c_world := (c_world c)\<lparr>rw_net := n'\<rparr>\<rparr>"
proof -
  consider (dial) e where "rl_Dial L n = (Inl e, n')"
    | (err) k n1 e where "rl_Dial L n = (Inr k, n1)" "rl_Err L k n1 = (Some e, n')"
    using assms(3) by (auto simp: subscribe_try_def split: prod.splits sum.splits option.splits)
  then show ?thesis
    using assms(1,2)
    by cases (simp_all add: attempt_def readLoop_start_def run_simps on_world_def)
qed

definition counted :: "subscribe_result \<Rightarrow> nat \<Rightarrow> nat" where
  "counted x k = (case x of NotTried \<Rightarrow> k | Refused \<Rightarrow> k + 1 | Accepted \<Rightarrow> 0)"

text \<open>A reader that is not closed and has counted \<open>k\<close> refusals.\<close>

definition has_counted :: "nat \<Rightarrow> nat \<Rightarrow> 'n redis_world \<Rightarrow> bool" where
  "has_counted i k w \<longleftrightarrow> i < length (rw_readers w) \<and> r_state (reader_at i w) \<noteq> readerStateClosed \<and>
     r_subscriptionErrors (reader_at i w) = of_nat k"

lemma small_count: "k \<le> 3 \<Longrightarrow> sint (of_nat k + 1 :: 64 word) = int k + 1"
proof -
  assume "k \<le> 3"
  then have "k = 0 \<or> k = 1 \<or> k = 2 \<or> k = 3" by arith
  then show ?thesis by auto
qed

lemma has_counted_refused:
  assumes "has_counted i k w"
  shows "has_counted i (k + 1) (refused_world i subscriber n w)"
  using assms by (simp add: has_counted_def refused_world_def add.commute)

lemma attempt_counts:
  assumes "has_counted i k (c_world c)" and "k \<le> 3" and "counted (fst (subscribe_try L subscriber n)) k \<le> 3"
  shows "\<exists>w. attempt E L i subscriber c n = c\<lparr>c_world := w\<rparr> \<and>
    has_counted i (counted (fst (subscribe_try L subscriber n)) k) w"
proof (cases "subscribe_try L subscriber n")
  case (Pair x n')
  note h = assms(1) [unfolded has_counted_def]
  show ?thesis
  proof (cases x)
    case Refused
    let ?w = "refused_world i subscriber n' (c_world c)"
    have k: "has_counted i (k + 1) ?w" by (rule has_counted_refused [OF assms(1)])
    have "k + 1 \<le> 3" using assms(3) Pair Refused by (simp add: counted_def)
    then have "\<not> sint (r_subscriptionErrors (reader_at i ?w)) > 3"
      using k small_count [OF assms(2)] by (simp add: has_counted_def add.commute)
    moreover obtain r where "attempt E L i subscriber c n =
        outcome_state (run (let c = c\<lparr>c_world := ?w\<rparr> in finally_do
          (if sint (r_subscriptionErrors (reader_at i (c_world c))) > 3
           then andthen (Close E c) (\<lambda>_ c. Ret Again c) else Ret Again c) (close_pubSub L r)))"
      using attempt_refused [of i c L subscriber n n' E] h Pair Refused by blast
    ultimately show ?thesis
      using k Pair Refused
      by (intro exI [of _ "?w\<lparr>rw_net := snd (rl_Close L r (rw_net ?w))\<rparr>"])
        (simp add: counted_def close_pubSub_def on_world_def has_counted_def)
  next
    case NotTried
    then have "attempt E L i subscriber c n = c\<lparr>c_world := (c_world c)\<lparr>rw_net := n'\<rparr>\<rparr>"
      using attempt_not_tried [of i c L subscriber n n' E] h Pair by blast
    with h Pair NotTried show ?thesis
      by (intro exI [of _ "(c_world c)\<lparr>rw_net := n'\<rparr>"]) (simp add: has_counted_def counted_def)
  next
    case Accepted
    then obtain r n1 n2 where n: "rl_Dial L n = (Inr r, n1)" "rl_Err L r n1 = (None, n2)"
      "rl_Subscribe L r (Topics subscriber) n2 = (None, n')"
      using Pair by (auto simp: subscribe_try_def split: prod.splits sum.splits option.splits)
    let ?w = "change_reader i (\<lambda>r'. r'\<lparr>r_subscriptionErrors := 0, r_pubSubConn := Some r\<rparr>)
      ((change_reader i (\<lambda>r. r\<lparr>r_topicsLen := length (Topics subscriber)\<rparr>) ((c_world c)\<lparr>rw_net := n2\<rparr>))\<lparr>rw_net := n'\<rparr>)"
    have "attempt E L i subscriber c n = c\<lparr>c_world := ?w\<rparr>"
      using h n by (simp add: attempt_def readLoop_start_def readLoop_subscribe_def run_simps on_world_def Let_def)
    moreover have "has_counted i 0 ?w" using h by (simp add: has_counted_def)
    ultimately show ?thesis using Pair Accepted by (auto simp: counted_def)
  qed
qed

lemma attempt_closes:
  assumes "has_counted i 3 (c_world c)" and "subscribe_try L subscriber n = (Refused, n')"
    and "idle c" and "c_state c \<noteq> connStateClosed" and "WriteTimeout (c_config c) = Some d"
  shows "c_state (attempt E L i subscriber c n) =
    (if fst (ws_WriteControl E CloseMessage d (refused_world i subscriber n' (c_world c))) = None
     then connStateClosed else c_state c)"
proof -
  let ?c = "c\<lparr>c_world := refused_world i subscriber n' (c_world c)\<rparr>"
  have h: "i < length (rw_readers (c_world c))" "r_state (reader_at i (c_world c)) \<noteq> readerStateClosed"
    using assms(1) by (simp_all add: has_counted_def)
  have "sint (r_subscriptionErrors (reader_at i (c_world ?c))) > 3"
    using has_counted_refused [OF assms(1), of subscriber n'] by (simp add: has_counted_def)
  then obtain k where k: "attempt E L i subscriber c n =
      outcome_state (run (finally_do (andthen (Close E ?c) (\<lambda>_ c. Ret Again c)) (close_pubSub L k)))"
    using attempt_refused [OF h assms(2), of E] by (auto simp: Let_def)
  have "idle ?c" "c_state ?c \<noteq> connStateClosed" "WriteTimeout (c_config ?c) = Some d"
    using assms(3-5) by (simp_all add: idle_def)
  note closed = Close_state [OF this, of E]
  show ?thesis
    unfolding k using closed
    by (cases "run (Close E ?c)") (simp_all add: run_finally_do run_andthen bind_outcome_def close_pubSub_def)
qed

lemma refused_in_a_row_simps:
  "refused_in_a_row L subscriber [] = 0"
  "refused_in_a_row L subscriber (ns @ [n]) =
    counted (fst (subscribe_try L subscriber n)) (refused_in_a_row L subscriber ns)"
  by (simp_all add: refused_in_a_row_def counted_def)

lemma attempts_simps:
  "attempts E L i subscriber c [] = c"
  "attempts E L i subscriber c (ns @ [n]) = attempt E L i subscriber (attempts E L i subscriber c ns) n"
  by (simp_all add: attempts_def)

lemma attempts_count:
  assumes "has_counted i 0 (c_world c)" and "\<forall>m \<le> length ns. refused_in_a_row L subscriber (take m ns) \<le> 3"
  shows "\<exists>w. attempts E L i subscriber c ns = c\<lparr>c_world := w\<rparr> \<and>
    has_counted i (refused_in_a_row L subscriber ns) w"
  using assms(2)
proof (induction ns rule: rev_induct)
  case Nil
  then show ?case using assms(1) by (intro exI [of _ "c_world c"]) (simp add: attempts_simps refused_in_a_row_simps)
next
  case (snoc n ns)
  have all: "refused_in_a_row L subscriber (take m (ns @ [n])) \<le> 3" if "m \<le> Suc (length ns)" for m
    using snoc.prems that by simp
  have "\<forall>m \<le> length ns. refused_in_a_row L subscriber (take m ns) \<le> 3"
    using all by (metis le_SucI take_append diff_is_0_eq take0 append_Nil2)
  then obtain w where w: "attempts E L i subscriber c ns = c\<lparr>c_world := w\<rparr>"
    "has_counted i (refused_in_a_row L subscriber ns) w"
    using snoc.IH by blast
  have "refused_in_a_row L subscriber ns \<le> 3" "refused_in_a_row L subscriber (ns @ [n]) \<le> 3"
    using all [of "length ns"] all [of "Suc (length ns)"] by simp_all
  with attempt_counts [of i _ "c\<lparr>c_world := w\<rparr>" L subscriber n E] w show ?case
    by (auto simp: attempts_simps refused_in_a_row_simps)
qed

text \<open>
  C40: Redis refusing a subscription again and again.  The counter of a reader is the number of
  the refusals in a row: an accepted subscription starts it anew, an attempt that does not get as
  far as subscribing leaves it.  Up to three of them leave the websocket connection as it was.  The
  fourth closes it, unless the close frame cannot be written: then it stays as it is.
\<close>

theorem repeated_failures_close_the_connection:
  assumes "has_counted i 0 (c_world c)" and "idle c" and "c_state c \<noteq> connStateClosed"
    and "WriteTimeout (c_config c) = Some d"
    and "\<forall>m \<le> length ns. refused_in_a_row L subscriber (take m ns) \<le> 3"
  shows "\<exists>w. attempts E L i subscriber c ns = c\<lparr>c_world := w\<rparr> \<and>
    r_subscriptionErrors (reader_at i w) = of_nat (refused_in_a_row L subscriber ns) \<and>
    (refused_in_a_row L subscriber (ns @ [n]) = 4 \<longrightarrow>
      c_state (attempts E L i subscriber c (ns @ [n])) =
        (if fst (ws_WriteControl E CloseMessage d
           (refused_world i subscriber (snd (subscribe_try L subscriber n)) w)) = None
         then connStateClosed else c_state c))"
proof -
  obtain w where w: "attempts E L i subscriber c ns = c\<lparr>c_world := w\<rparr>"
    "has_counted i (refused_in_a_row L subscriber ns) w"
    using attempts_count [OF assms(1,5)] by blast
  have three: "refused_in_a_row L subscriber ns \<le> 3" using assms(5) by (metis order_refl take_all)
  have c: "idle (c\<lparr>c_world := w\<rparr>)" "c_state (c\<lparr>c_world := w\<rparr>) \<noteq> connStateClosed"
    "WriteTimeout (c_config (c\<lparr>c_world := w\<rparr>)) = Some d"
    using assms(2-4) by (simp_all add: idle_def)
  have "c_state (attempts E L i subscriber c (ns @ [n])) =
      (if fst (ws_WriteControl E CloseMessage d
         (refused_world i subscriber (snd (subscribe_try L subscriber n)) w)) = None
       then connStateClosed else c_state c)" if "refused_in_a_row L subscriber (ns @ [n]) = 4"
  proof -
    have "refused_in_a_row L subscriber ns = 3" "fst (subscribe_try L subscriber n) = Refused"
      using that three by (auto simp: refused_in_a_row_simps counted_def split: subscribe_result.splits)
    then show ?thesis
      using attempt_closes [OF _ _ c, of i L subscriber n _ E] w
      by (cases "subscribe_try L subscriber n") (simp add: attempts_simps)
  qed
  with w show ?thesis by (intro exI [of _ w]) (simp add: has_counted_def)
qed

text \<open>Redis accepts the third of these attempts, which the third name tells, and refuses the others.\<close>

definition moody_redis :: "string list redis_lib" where
  "moody_redis = demo_redis\<lparr>rl_Subscribe := (\<lambda>k ts n. (if n = [''good'', ''dial''] then None
     else Some (ErrNew ''refused''), n))\<rparr>"

definition mood :: "string list list" where
  "mood = [[], [], [], [''good''], [], [], []]"

lemma mood_counts:
  "map (\<lambda>m. refused_in_a_row moody_redis NewSubscriber (take m mood)) [0..<8] = [0, 1, 2, 3, 0, 1, 2, 3]"
  "refused_in_a_row moody_redis NewSubscriber mood = 3"
  "refused_in_a_row moody_redis NewSubscriber (mood @ [[]]) = 4"
  by code_simp+

theorem repeated_failures_close_the_connection_witness:
  "c_state (attempts redis_env moody_redis 0 NewSubscriber (redis_conn subscribed) (mood @ [[]])) = connStateClosed \<and>
   r_subscriptionErrors (reader_at 0 (c_world (attempts redis_env moody_redis 0 NewSubscriber
     (redis_conn subscribed) mood))) = 3"
proof -
  let ?c = "redis_conn subscribed"
  have c: "has_counted 0 0 (c_world ?c)" "idle ?c" "c_state ?c \<noteq> connStateClosed"
    "WriteTimeout (c_config ?c) = Some 15000000000"
    using idle_redis_conn by (simp_all add: redis_demo_defs has_counted_def)
  have few: "\<forall>m \<le> length mood. refused_in_a_row moody_redis NewSubscriber (take m mood) \<le> 3"
  proof (intro allI impI)
    fix m assume "m \<le> length mood"
    then have "m < 8" by (simp add: mood_def)
    then have "refused_in_a_row moody_redis NewSubscriber (take m mood) \<in> set [0, 1, 2, 3, 0, 1, 2, 3]"
      unfolding mood_counts(1) [symmetric] by simp
    then show "refused_in_a_row moody_redis NewSubscriber (take m mood) \<le> 3" by auto
  qed
  show ?thesis
    using repeated_failures_close_the_connection [OF c few, of redis_env "[]"] mood_counts(2,3)
    by (auto simp: redis_env_def)
qed

text \<open>
  A reader that is closed before its goroutine has started comes back to life: the
  goroutine sets it to running without looking, subscribes, and listens.
\<close>

lemma closed_reader_listens_again:
  assumes "i < length (rw_readers (c_world c))"
    and "r_state (reader_at i (c_world c)) = readerStateClosed"
    and "run (redis_readPump_start i c) = Done () c1"
    and "rl_Dial L (rw_net (c_world c)) = (Inr k, n1)" and "rl_Err L k n1 = (None, n2)"
    and "rl_Subscribe L k (Topics subscriber) n2 = (None, n3)"
  shows "\<exists>c2. run (readLoop_start E L i subscriber c1) = Done (Listening k) c2 \<and> listening i k c2"
proof -
  have c1: "c1 = on_world (change_reader i (\<lambda>r. r\<lparr>r_state := readerStateRunning\<rparr>)) c"
    using assms(3) by (simp add: redis_readPump_start_def run_simps)
  show ?thesis
    using assms(1,4-6)
    by (simp add: c1 readLoop_start_def readLoop_subscribe_def run_simps Let_def listening_def)
qed

lemma closed_reader_listens_again_witness:
  "\<exists>c1 c2. run (redis_readPump_start 0 (redis_conn (\<lambda>r. r\<lparr>r_state := readerStateClosed\<rparr>))) = Done () c1 \<and>
     run (readLoop_start redis_env demo_redis 0 NewSubscriber c1) = Done (Listening 7) c2 \<and> listening 0 7 c2"
proof -
  let ?c = "redis_conn (\<lambda>r. r\<lparr>r_state := readerStateClosed\<rparr>)"
  have c: "0 < length (rw_readers (c_world ?c))" "r_state (reader_at 0 (c_world ?c)) = readerStateClosed"
    by (simp_all add: redis_demo_defs)
  have l: "rl_Dial demo_redis (rw_net (c_world ?c)) = (Inr 7, [''dial''])"
    "rl_Err demo_redis 7 [''dial''] = (None, [''dial''])"
    "rl_Subscribe demo_redis 7 (Topics NewSubscriber) [''dial''] = (None, [''dial'', ''subscribe''])"
    by (simp_all add: redis_demo_defs)
  obtain c1 where "run (redis_readPump_start 0 ?c) = Done () c1"
    by (simp add: redis_readPump_start_def run_simps)
  with closed_reader_listens_again [OF c this l] show ?thesis by blast
qed

text \<open>Going on with a routine that waits, from the state others have left.\<close>

fun resume :: "('p, 'a, 's) prog \<Rightarrow> 's \<Rightarrow> ('p, 'a, 's) prog" where
  "resume (Wait g s k) t = k t"
| "resume m t = m"

text \<open>
  If the subscription of a listening reader is stopped between the reader's test of its
  state and its next receive, the reader dereferences the nil \<open>pubSubConn\<close>; no function of its
  goroutine recovers.
\<close>

lemma stop_while_reading_panics:
  assumes "listening i k c"
  shows "resume (resume (readLoop_turn E L i k m c) c) (on_world (reader_close L i) c) =
    Panic PNilDeref (close_pubSub L k (on_world (reader_close L i) c))"
proof -
  have "r_pubSubConn (reader_at i (reader_close L i (c_world c))) = None"
    using assms by (auto simp: listening_def reader_close_def Let_def split: prod.splits)
  moreover have "r_state (reader_at i (c_world c)) \<noteq> readerStateClosed"
    using assms by (simp add: listening_def)
  ultimately show ?thesis
    by (simp add: readLoop_turn_def reader_getState_def readIteration_def pause_def wait_for_def)
qed

lemma stop_while_reading_panics_witness:
  "\<exists>c. resume (resume (readLoop_turn redis_env demo_redis 0 7 OtherReply (redis_conn subscribed))
     (redis_conn subscribed)) (on_world (reader_close demo_redis 0) (redis_conn subscribed)) = Panic PNilDeref c"
  using stop_while_reading_panics [OF listening_redis_conn] by blast

end
