(* ===== verification/ConnectionRelations.thy ===== *)
theory ConnectionRelations
  imports SystemInvariants
begin

text \<open>
  A relation between states of a connection that every update of the code keeps to, carried
  through all goroutines once and for all: it then holds of every step of the system and of
  every execution.  The theories \<open>Outbox\<close> and \<open>RedisSystem\<close> instantiate it.
\<close>

locale connection_relation = reader_guarantee V E step_ok W "\<lambda>_. True"
  for V :: "'w \<Rightarrow> 'w \<Rightarrow> bool" and E and W :: "'w conn \<Rightarrow> 'w conn \<Rightarrow> bool" +
  assumes W_established: "W s (s\<lparr>c_state := connStateEstablished\<rparr>)"
    and W_recv_in: "W s (s\<lparr>c_incoming := snd (chan_recv NilMsg (c_incoming s))\<rparr>)"
    and W_add: "W s (addSubscription x s)"
    and W_outgoing: "can_recv (c_outgoing s) \<Longrightarrow> safe s (select_body E SelOutgoing s)"
begin

sublocale processor_guarantee V E step_ok W "\<lambda>_. True" "\<lambda>_. True"
  by unfold_locales (auto intro: W_established W_recv_in W_add W_outgoing)

lemma processor_safe: "rg step_ok W (\<lambda>_ _. True) c (processor_code E ph po sel c)"
  using safe_processor_code [of ph c po sel] by (simp add: safe_def)

sublocale threads: goroutine_contract E step_ok W step_ok W "\<lambda>_. True"
  using transp_step_ok safe_reader_code safe_api_code processor_safe
  by unfold_locales (simp_all add: safe_def)

lemma relation_step:
  assumes "sys_step E s ev t" and "sys_ok s" and "threads.threads_ok s"
  shows "W (con s) (con t) \<and> threads.threads_ok t"
proof -
  have "step_ok (con s) (con t)"
    using sys_ok_step [OF assms(1,2)] by (simp add: proc_step_def)
  with threads.step_guarantee [OF assms(1,3)] show ?thesis
    by (auto split: if_splits)
qed

lemma relation_reaches:
  assumes "reaches E s t" and "sys_ok s" and "threads.threads_ok s"
  shows "W (con s) (con t) \<and> threads.threads_ok t"
  using assms
proof (induction rule: reaches.induct)
  case (reaches_step s t ev u)
  then have "sys_ok t" using sys_ok_reaches by blast
  with reaches_step relation_step [of t ev u] transpD [OF G_trans] show ?case by blast
qed (simp add: G_refl)

lemma threads_moves: "threads.threads_ok s \<Longrightarrow> step_ok (con s) c \<Longrightarrow> threads.threads_ok (s\<lparr>con := c\<rparr>)"
  by (rule threads.threads_ok_moved)

lemma relation_reachable:
  assumes "reachable E s"
  shows "threads.threads_ok s \<and> (\<exists>schema config n w. W (snd (NewConn schema config n w)) (con s))"
proof -
  obtain schema config n w where r: "reaches E (start_sys (snd (NewConn schema config n w))) s"
    using assms by (auto simp: reachable_def)
  with relation_reaches [OF r sys_ok_start threads.threads_ok_start] show ?thesis
    by (auto simp: start_sys_def)
qed

end

end
