(* ===== verification/RedisSystem.thy ===== *)
theory RedisSystem
  imports RedisReader SystemProperties ConnectionRelations
begin

text \<open>
  The goroutines of a connection together with the reading goroutines of the Redis handler,
  which work on the same connection: a second step relation on top of the one of
  \<open>Interleaving\<close>.  The locale \<open>world_guarantee\<close> carries a relation that all handlers and
  libraries keep to through the goroutines of a connection, the locale \<open>pump_relation\<close>
  through those of Redis; both are interpreted on the table of readers.
\<close>

subsection \<open>The goroutines of the Redis handler\<close>

datatype pump_at = PumpStart | PumpLoop | PumpListen nat

text \<open>
  A goroutine is about to run the code of a place in \<open>readPump\<close>, waits inside it, has ended, or
  has ended the program.
\<close>

datatype 'n pump =
    PumpAt pump_at
  | PumpWaits pump_at "'n redis_world conn \<Rightarrow> bool" "'n redis_world conn \<Rightarrow> (turn, 'n) rprog"
  | PumpGone
  | PumpCrashed panic

fun settle_pump :: "pump_at \<Rightarrow> (turn, 'n) rprog \<Rightarrow> 'n pump \<times> 'n redis_world conn" where
  "settle_pump p (Wait g c k) = (PumpWaits p g k, c)"
| "settle_pump p (Ret ReaderDone c) = (PumpGone, c)"
| "settle_pump p (Ret Again c) = (PumpAt PumpLoop, c)"
| "settle_pump p (Ret (Listening k) c) = (PumpAt (PumpListen k), c)"
| "settle_pump p (Panic x c) = (PumpCrashed x, c)"

fun pump_code ::
  "'n redis_world env \<Rightarrow> 'n redis_lib \<Rightarrow> nat \<times> subscriber \<Rightarrow> pump_at \<Rightarrow> received \<Rightarrow>
    'n redis_world conn \<Rightarrow> (turn, 'n) rprog" where
  "pump_code E L (i, subscriber) PumpStart m c = andthen (redis_readPump_start i c) (\<lambda>_ c. Ret Again c)"
| "pump_code E L (i, subscriber) PumpLoop m c = readLoop_start E L i subscriber c"
| "pump_code E L (i, subscriber) (PumpListen k) m c = readLoop_turn E L i k m c"

subsection \<open>The system\<close>

record 'n rsys =
  base :: "'n redis_world sys"
  pumps :: "'n pump list"

abbreviation world_of :: "'n rsys \<Rightarrow> 'n redis_world" where
  "world_of r \<equiv> c_world (con (base r))"

text \<open>The goroutines the handler has started since, in the order of \<open>rw_pumps\<close>.\<close>

definition new_pumps :: "'n redis_world conn \<Rightarrow> 'n pump list \<Rightarrow> 'n pump list" where
  "new_pumps c ps = ps @ replicate (length (rw_pumps (c_world c)) - length ps) (PumpAt PumpStart)"

fun pump_crashed :: "'n pump \<Rightarrow> bool" where
  "pump_crashed (PumpCrashed p) = True"
| "pump_crashed g = False"

definition ralive :: "'n rsys \<Rightarrow> bool" where
  "ralive r \<longleftrightarrow> alive (base r) \<and> list_all (\<lambda>g. \<not> pump_crashed g) (pumps r)"

datatype revent =
    Base event
  | PumpGo nat received
  | PumpResume nat

definition put_pump :: "'n rsys \<Rightarrow> nat \<Rightarrow> 'n pump \<times> 'n redis_world conn \<Rightarrow> 'n rsys" where
  "put_pump r j x = \<lparr>base = (base r)\<lparr>con := snd x\<rparr>, pumps = new_pumps (snd x) ((pumps r)[j := fst x])\<rparr>"

fun rfire_alive :: "'n redis_world env \<Rightarrow> 'n redis_lib \<Rightarrow> revent \<Rightarrow> 'n rsys \<Rightarrow> 'n rsys option" where
  "rfire_alive E L (Base ev) r = (case fire E ev (base r) of
       None \<Rightarrow> None | Some s \<Rightarrow> Some \<lparr>base = s, pumps = new_pumps (con s) (pumps r)\<rparr>)"
| "rfire_alive E L (PumpGo j m) r =
    (if j < length (pumps r) \<and> j < length (rw_pumps (world_of r)) then (case pumps r ! j of
       PumpAt p \<Rightarrow> Some (put_pump r j (settle_pump p
         (pump_code E L (rw_pumps (world_of r) ! j) p m (con (base r)))))
     | _ \<Rightarrow> None) else None)"
| "rfire_alive E L (PumpResume j) r =
    (if j < length (pumps r) then (case pumps r ! j of
       PumpWaits p g k \<Rightarrow> if g (con (base r)) then Some (put_pump r j (settle_pump p (k (con (base r))))) else None
     | _ \<Rightarrow> None) else None)"

definition rfire :: "'n redis_world env \<Rightarrow> 'n redis_lib \<Rightarrow> revent \<Rightarrow> 'n rsys \<Rightarrow> 'n rsys option" where
  "rfire E L ev r = (if ralive r then rfire_alive E L ev r else None)"

inductive rreaches :: "'n redis_world env \<Rightarrow> 'n redis_lib \<Rightarrow> 'n rsys \<Rightarrow> 'n rsys \<Rightarrow> bool" for E L where
  rreaches_refl: "rreaches E L r r"
| rreaches_step: "rreaches E L r s \<Longrightarrow> rfire E L ev s = Some t \<Longrightarrow> rreaches E L r t"

fun rfire_all :: "'n redis_world env \<Rightarrow> 'n redis_lib \<Rightarrow> revent list \<Rightarrow> 'n rsys \<Rightarrow> 'n rsys option" where
  "rfire_all E L [] r = Some r"
| "rfire_all E L (ev # evs) r = (case rfire E L ev r of None \<Rightarrow> None | Some s \<Rightarrow> rfire_all E L evs s)"

lemma rfire_all_reaches: "rfire_all E L evs s = Some t \<Longrightarrow> rreaches E L r s \<Longrightarrow> rreaches E L r t"
  by (induction evs arbitrary: s) (auto split: option.splits intro: rreaches_step)

text \<open>A connection at its start, over an outside state \<open>w\<close> in which no goroutine runs.\<close>

definition start_rsys :: "nat option \<Rightarrow> config_values \<Rightarrow> 64 word \<Rightarrow> 'n redis_world \<Rightarrow> 'n rsys" where
  "start_rsys schema config n w = \<lparr>base = start_sys (snd (NewConn schema config n w)), pumps = []\<rparr>"

lemma rdead_is_final: "\<not> ralive r \<Longrightarrow> {t. rreaches E L r t} = {r}"
proof -
  assume d: "\<not> ralive r"
  have "t = r" if "rreaches E L r t" for t
    using that d by (induction rule: rreaches.induct) (auto simp: rfire_def)
  then show ?thesis by (auto intro: rreaches_refl)
qed

subsection \<open>A relation on the outside state, kept by the goroutines of a connection\<close>

definition world_rel :: "('w \<Rightarrow> 'w \<Rightarrow> bool) \<Rightarrow> 'w conn \<Rightarrow> 'w conn \<Rightarrow> bool" where
  "world_rel V s t \<longleftrightarrow> V (c_world s) (c_world t)"

locale world_guarantee =
  fixes V :: "'w \<Rightarrow> 'w \<Rightarrow> bool" and E :: "'w env"
  assumes W_refl: "reflp V" and W_trans: "transp V" and W_env: "env_ok V E"
begin

abbreviation W :: "'w conn \<Rightarrow> 'w conn \<Rightarrow> bool" where
  "W \<equiv> world_rel V"

lemma W_reflp: "W s s"
  using W_refl by (simp add: world_rel_def reflpD)

lemma W_transp: "transp W"
  using W_trans by (auto simp: world_rel_def transp_def)

lemma prim_W: "prim V s t \<Longrightarrow> W s t"
  by (induction rule: prim.induct) (auto simp: world_rel_def reflpD [OF W_refl])

sublocale reader_guarantee V E step_ok W "\<lambda>_. True"
  by unfold_locales
    (auto intro: W_refl W_trans env_okD(1) [OF W_env] W_transp W_reflp prim_W step_ok_shutdown,
      simp_all add: world_rel_def reflpD [OF W_refl])

sublocale connection_relation V E W
  by unfold_locales (auto simp: world_rel_def reflpD [OF W_refl] addSubscription_def
      intro!: safe_outgoing env_okD(2) [OF W_env])

lemma is_connection_relation: "connection_relation V E W"
  ..

end

subsection \<open>What the code of the Redis goroutines guarantees\<close>

text \<open>
  Every update but one keeps to a relation that does not look at the fields of readers other
  than their state; setting a reader to running does so unless the reader is one of \<open>Ex\<close>.
\<close>

definition lib_ok :: "('n redis_world \<Rightarrow> 'n redis_world \<Rightarrow> bool) \<Rightarrow> 'n redis_lib \<Rightarrow> bool" where
  "lib_ok V L \<longleftrightarrow> (\<forall>w. V w (w\<lparr>rw_net := snd (rl_Dial L (rw_net w))\<rparr>)) \<and>
     (\<forall>k w. V w (w\<lparr>rw_net := snd (rl_Err L k (rw_net w))\<rparr>)) \<and>
     (\<forall>k ts w. V w (w\<lparr>rw_net := snd (rl_Subscribe L k ts (rw_net w))\<rparr>)) \<and>
     (\<forall>k w. V w (w\<lparr>rw_net := snd (rl_Close L k (rw_net w))\<rparr>)) \<and>
     (\<forall>x ch d w. V w (w\<lparr>rw_net := snd (gq_Execute L x ch d (rw_net w))\<rparr>))"

lemma lib_ok_net: "(\<And>w n. V w (w\<lparr>rw_net := n\<rparr>)) \<Longrightarrow> lib_ok V L"
  by (simp add: lib_ok_def)

lemma lib_okD:
  assumes "lib_ok V L"
  shows "V w (w\<lparr>rw_net := snd (rl_Dial L (rw_net w))\<rparr>)" "V w (w\<lparr>rw_net := snd (rl_Err L k (rw_net w))\<rparr>)"
    "V w (w\<lparr>rw_net := snd (rl_Subscribe L k ts (rw_net w))\<rparr>)"
    "V w (w\<lparr>rw_net := snd (rl_Close L k (rw_net w))\<rparr>)"
    "V w (w\<lparr>rw_net := snd (gq_Execute L x ch d (rw_net w))\<rparr>)"
  using assms by (simp_all add: lib_ok_def)

locale pump_code_guarantee = conn_guarantee V E R G "\<lambda>_. True"
  for V :: "'n redis_world \<Rightarrow> 'n redis_world \<Rightarrow> bool" and E
    and R G :: "'n redis_world conn \<Rightarrow> 'n redis_world conn \<Rightarrow> bool" +
  fixes Ex :: "nat \<Rightarrow> bool" and L :: "'n redis_lib"
  assumes V_lib: "lib_ok V L"
    and V_fields: "(\<And>r. r_state (f r) = r_state r) \<Longrightarrow> V w (change_reader i f w)"
    and V_running: "\<not> Ex i \<Longrightarrow> V w (change_reader i (\<lambda>r. r\<lparr>r_state := readerStateRunning\<rparr>) w)"
begin

lemma prim_on_world: "V (c_world s) (f (c_world s)) \<Longrightarrow> prim V s (on_world f s)"
  unfolding on_world_def by (rule prim_world)

lemma safe_on_world: "V (c_world s) (f (c_world s)) \<Longrightarrow> safe s (Ret a (on_world f s))"
  by (auto intro: safe_prim prim_on_world)

lemma safe_after:
  "V (c_world s) (f (c_world s)) \<Longrightarrow> safe (on_world f s) m \<Longrightarrow> safe s m"
  unfolding safe_def by (blast intro: rg_trans [OF G_trans] prim_G prim_on_world)

lemma safe_fields:
  "(\<And>r. r_state (f r) = r_state r) \<Longrightarrow> safe (on_world (change_reader i f) s) m \<Longrightarrow> safe s m"
  by (rule safe_after [where f = "change_reader i f"]) (rule V_fields)

lemma safe_pause: "(\<And>t. safe t (m t)) \<Longrightarrow> safe s (pause m s)"
  unfolding pause_def by (rule safe_wait) auto

lemma safe_netcall: "(\<And>w. V w (w\<lparr>rw_net := snd (f (rw_net w))\<rparr>)) \<Longrightarrow> safe s (netcall f s)"
  unfolding netcall_def split_beta
  by (rule safe_pause) (auto intro: safe_on_world)

lemmas safe_libcalls = safe_netcall [OF lib_okD(1) [OF V_lib]] safe_netcall [OF lib_okD(2) [OF V_lib]]
  safe_netcall [OF lib_okD(3) [OF V_lib]] safe_netcall [OF lib_okD(5) [OF V_lib]]

lemma safe_reader_getState: "safe s (reader_getState i s)"
  unfolding reader_getState_def by (intro safe_pause safe_Ret) simp

lemma close_pubSub_prim: "prim V t (close_pubSub L k t)"
  unfolding close_pubSub_def by (rule prim_on_world) (rule lib_okD(4) [OF V_lib])

lemma safe_readPump_start: "\<not> Ex i \<Longrightarrow> safe s (redis_readPump_start i s)"
  unfolding redis_readPump_start_def reader_setState_def
  by (intro safe_pause safe_on_world V_running)

lemma safe_subscription_failed: "safe s (subscription_failed E L i k s)"
  unfolding subscription_failed_def Let_def
  by (rule safe_fields [where i = i and f = "\<lambda>r. r\<lparr>r_subscriptionErrors := r_subscriptionErrors r + 1\<rparr>"], simp)
    (auto intro!: safe_finally safe_andthen safe_Close safe_Ret close_pubSub_prim
      safe_prim [OF _ close_pubSub_prim])

lemma safe_readLoop_subscribe: "safe s (readLoop_subscribe E L i subscriber k s)"
  unfolding readLoop_subscribe_def Let_def
  by (rule safe_fields [where i = i and f = "\<lambda>r. r\<lparr>r_topicsLen := length (Topics subscriber)\<rparr>"], simp)
    (auto intro!: safe_andthen safe_libcalls safe_subscription_failed safe_on_world V_fields
      split: option.splits)

lemma safe_readLoop_start: "safe s (readLoop_start E L i subscriber s)"
  unfolding readLoop_start_def
  by (auto intro!: safe_andthen safe_reader_getState safe_libcalls safe_readLoop_subscribe safe_Ret
      split: sum.splits option.splits)

lemma safe_readIteration: "safe s (readIteration E L i m s)"
  unfolding readIteration_def Let_def
  by (intro safe_pause)
    (auto intro!: safe_pause safe_andthen safe_libcalls safe_Subscription_SendData safe_Ret safe_Panic
      split: option.splits received.splits)

lemma safe_readLoop_turn: "safe s (readLoop_turn E L i k m s)"
proof -
  have "safe t (Panic p (close_pubSub L k t))" for p t
    by (rule safe_prim_Panic [OF close_pubSub_prim])
  then have "safe s (catch_panic
      (andthen (reader_getState i s) (\<lambda>st c. if st = readerStateClosed then Ret False c
         else andthen (readIteration E L i m c) (\<lambda>err c. Ret (err = None) c)))
      (\<lambda>p c. Panic p (close_pubSub L k c)))"
    by (intro safe_catch safe_andthen safe_reader_getState)
      (auto simp: safe_def [symmetric] simp del: rg.simps intro!: safe_andthen safe_readIteration safe_Ret)
  then show ?thesis
    unfolding readLoop_turn_def
    by (rule safe_andthen) (auto intro!: safe_Ret safe_prim [OF _ close_pubSub_prim])
qed

lemma safe_pump_code:
  assumes "p = PumpStart \<Longrightarrow> \<not> Ex (fst x)"
  shows "safe s (pump_code E L x p m s)"
  using assms
  by (cases x; cases p)
    (auto intro!: safe_andthen safe_readPump_start safe_readLoop_start safe_readLoop_turn safe_Ret)

fun pump_ok :: "'n pump \<Rightarrow> 'n redis_world conn \<Rightarrow> bool" where
  "pump_ok (PumpWaits p g k) c = (\<forall>t. R c t \<longrightarrow> g t \<longrightarrow> safe t (k t))"
| "pump_ok g c = True"

lemma settle_pump_ok: "safe s m \<Longrightarrow> settle_pump p m = (g, c) \<Longrightarrow> G s c \<and> pump_ok g c"
  by (induction p m rule: settle_pump.induct) (auto simp: safe_def)

lemma pump_ok_stable:
  assumes "transp R" and "R c d" and "pump_ok g c"
  shows "pump_ok g d"
  using assms(3)
proof (cases g)
  case (PumpWaits p w k)
  with assms(3) show ?thesis using transpD [OF assms(1,2)] by auto
qed auto

end

text \<open>On the connection they do what any goroutine but \<open>processMessages\<close> may do.\<close>

interpretation pump: pump_code_guarantee "\<lambda>_ _. True" E step_ok env_step "\<lambda>_. False" L for E L
  by unfold_locales (auto simp: lib_ok_net)

subsection \<open>The connection in the composed system\<close>

lemma set_new_pumps: "set (new_pumps c ps) \<subseteq> insert (PumpAt PumpStart) (set ps)"
  by (auto simp: new_pumps_def)

lemma nth_new_pumps:
  "j < length ps \<Longrightarrow> new_pumps c ps ! j = ps ! j"
  "j < length (new_pumps c ps) \<Longrightarrow> \<not> j < length ps \<Longrightarrow> new_pumps c ps ! j = PumpAt PumpStart"
  by (auto simp: new_pumps_def nth_append)

lemma length_new_pumps:
  "length ps \<le> length (rw_pumps (c_world c)) \<Longrightarrow> length (new_pumps c ps) = length (rw_pumps (c_world c))"
  by (simp add: new_pumps_def)

definition rsys_ok :: "'n rsys \<Rightarrow> bool" where
  "rsys_ok r \<longleftrightarrow> sys_ok (base r) \<and> (\<forall>g \<in> set (pumps r). pump.pump_ok g (con (base r)))"

lemma pumps_stable:
  assumes "\<forall>g \<in> set ps. pump.pump_ok g c" and "step_ok c d"
  shows "\<forall>g \<in> set (new_pumps d ps). pump.pump_ok g d"
  using assms set_new_pumps [of d ps] pump.pump_ok_stable [OF transp_step_ok assms(2)] by fastforce

lemma pump_moves:
  assumes "rsys_ok r" and "env_step (con (base r)) c" and "pump.pump_ok g c"
  shows "rsys_ok (put_pump r j (g, c)) \<and> proc_step (con (base r)) (con (base (put_pump r j (g, c))))"
proof -
  have "step_ok (con (base r)) c" using assms(2) by (simp add: env_step_def)
  then have "\<forall>g' \<in> set ((pumps r)[j := g]). pump.pump_ok g' c"
    using assms(1,3) pump.pump_ok_stable [OF transp_step_ok]
    by (auto simp: rsys_ok_def dest!: subsetD [OF set_update_subset_insert])
  then have "\<forall>g' \<in> set (new_pumps c ((pumps r)[j := g])). pump.pump_ok g' c"
    by (rule pumps_stable) simp
  then show ?thesis
    using env_moves [of "base r" c] assms(1,2)
    by (simp add: rsys_ok_def put_pump_def sys_ok_def env_proc_step)
qed

lemma pump_running:
  assumes "rsys_ok r" and "j < length (pumps r)" and "pumps r ! j = PumpWaits p g k" and "g (con (base r))"
  shows "reader.safe (con (base r)) (k (con (base r)))"
proof -
  have "pump.pump_ok (pumps r ! j) (con (base r))" using assms(1,2) by (simp add: rsys_ok_def)
  with assms(3,4) show ?thesis by simp
qed

text \<open>
  To the connection's goroutines those of Redis are further users: their steps are steps of the
  system, or change the connection as any user may.
\<close>

lemma rfire_cases:
  assumes "rfire E L ev r = Some t" and "rsys_ok r"
  obtains (system) e s where "sys_step E (base r) e s" "t = \<lparr>base = s, pumps = new_pumps (con s) (pumps r)\<rparr>"
  | (pump) j g c where "t = put_pump r j (g, c)" "env_step (con (base r)) c" "pump.pump_ok g c"
proof (cases ev)
  case (Base e)
  with assms(1) show ?thesis
    by (auto simp: rfire_def sys_step_iff_fire intro: system split: if_splits option.splits)
next
  case (PumpGo j m)
  obtain p where t: "t = put_pump r j (settle_pump p
      (pump_code E L (rw_pumps (world_of r) ! j) p m (con (base r))))"
    using assms(1) PumpGo by (auto simp: rfire_def split: if_splits pump.splits)
  obtain g c where gc: "settle_pump p (pump_code E L (rw_pumps (world_of r) ! j) p m (con (base r))) = (g, c)"
    by fastforce
  from pump.settle_pump_ok [OF pump.safe_pump_code gc] show ?thesis
    using pump [OF t [unfolded gc]] by blast
next
  case (PumpResume j)
  then obtain p g k where t: "t = put_pump r j (settle_pump p (k (con (base r))))"
    "j < length (pumps r)" "pumps r ! j = PumpWaits p g k" "g (con (base r))"
    using assms(1) by (auto simp: rfire_def split: if_splits pump.splits)
  obtain h c where gc: "settle_pump p (k (con (base r))) = (h, c)" by fastforce
  from pump.settle_pump_ok [OF pump_running [OF assms(2) t(2-4)] gc] show ?thesis
    using pump [OF t(1) [unfolded gc]] by blast
qed

lemma rsys_ok_step:
  assumes "rfire E L ev r = Some t" and "rsys_ok r"
  shows "rsys_ok t \<and> proc_step (con (base r)) (con (base t))"
  using assms
proof (cases rule: rfire_cases)
  case (system e s)
  then have "sys_ok s \<and> proc_step (con (base r)) (con s)"
    using sys_ok_step assms(2) unfolding rsys_ok_def by blast
  moreover have "\<forall>g \<in> set (new_pumps (con s) (pumps r)). pump.pump_ok g (con s)"
    by (rule pumps_stable [where c = "con (base r)"]) (use calculation assms(2) in \<open>simp_all add: rsys_ok_def proc_step_def\<close>)
  ultimately show ?thesis by (simp add: system(2) rsys_ok_def)
next
  case (pump j g c)
  then show ?thesis using pump_moves [OF assms(2)] by blast
qed

lemma composed_invariant:
  assumes "rreaches E L r t" and "rsys_ok r" and "I (base r)"
    and "\<And>s ev t. sys_step E s ev t \<Longrightarrow> sys_ok s \<Longrightarrow> I s \<Longrightarrow> I t"
    and "\<And>s c. sys_ok s \<Longrightarrow> I s \<Longrightarrow> env_step (con s) c \<Longrightarrow> I (s\<lparr>con := c\<rparr>)"
  shows "rsys_ok t \<and> I (base t)"
  using assms(1-3)
proof (induction rule: rreaches.induct)
  case (rreaches_step r s ev t)
  then have s: "rsys_ok s" "I (base s)" by blast+
  have "I (base t)"
    using rreaches_step(2) s(1)
  proof (cases rule: rfire_cases)
    case (system e u)
    with s assms(4) show ?thesis by (auto simp: rsys_ok_def)
  next
    case (pump j g c)
    with s assms(5) show ?thesis by (auto simp: rsys_ok_def put_pump_def)
  qed
  then show ?case using rsys_ok_step [OF rreaches_step(2) s(1)] by blast
qed simp

lemma rsys_ok_reaches:
  assumes "rreaches E L r t" and "rsys_ok r"
  shows "rsys_ok t"
  using assms by (induction rule: rreaches.induct) (auto dest: rsys_ok_step)

lemma rsys_ok_start: "rsys_ok (start_rsys schema config n w)"
  by (simp add: rsys_ok_def start_rsys_def sys_ok_start)

subsection \<open>A relation on the table of readers, kept by all goroutines\<close>

fun starting :: "'n pump \<Rightarrow> bool" where
  "starting (PumpAt p) = (p = PumpStart)"
| "starting (PumpWaits p g k) = (p = PumpStart)"
| "starting g = False"

fun event_pump :: "revent \<Rightarrow> nat option" where
  "event_pump (Base ev) = None"
| "event_pump (PumpGo j m) = Some j"
| "event_pump (PumpResume j) = Some j"

definition pump_reader :: "'n rsys \<Rightarrow> nat \<Rightarrow> nat" where
  "pump_reader r j = fst (rw_pumps (world_of r) ! j)"

locale pump_relation = connection_relation V E W
  for V :: "'n redis_world \<Rightarrow> 'n redis_world \<Rightarrow> bool" and E
    and W :: "'n redis_world conn \<Rightarrow> 'n redis_world conn \<Rightarrow> bool" +
  fixes Ex :: "nat \<Rightarrow> bool" and L :: "'n redis_lib"
  assumes U_lib: "lib_ok V L"
    and U_fields: "(\<And>r. r_state (f r) = r_state r) \<Longrightarrow> V w (change_reader i f w)"
    and U_running: "\<not> Ex i \<Longrightarrow> V w (change_reader i (\<lambda>r. r\<lparr>r_state := readerStateRunning\<rparr>) w)"
begin

sublocale code: pump_code_guarantee V E step_ok W Ex L
  by unfold_locales (auto intro: U_lib U_fields U_running)

text \<open>The goroutines excluded are those that start over a reader of \<open>Ex\<close>.\<close>

definition excluded :: "'n rsys \<Rightarrow> nat \<Rightarrow> bool" where
  "excluded r j \<longleftrightarrow> Ex (pump_reader r j) \<and> starting (pumps r ! j)"

definition rworld_ok :: "'n rsys \<Rightarrow> bool" where
  "rworld_ok r \<longleftrightarrow> threads.threads_ok (base r) \<and> length (pumps r) = length (rw_pumps (world_of r)) \<and>
     (\<forall>j < length (pumps r). excluded r j \<or> code.pump_ok (pumps r ! j) (con (base r)))"

lemma pump_go_run:
  assumes "rfire E L (PumpGo j m) r = Some t"
  shows "\<exists>p g c. pumps r ! j = PumpAt p \<and> j < length (pumps r) \<and> t = put_pump r j (g, c) \<and>
    settle_pump p (pump_code E L (rw_pumps (world_of r) ! j) p m (con (base r))) = (g, c) \<and>
    (\<not> excluded r j \<longrightarrow> W (con (base r)) c \<and> code.pump_ok g c)"
proof -
  obtain p where p: "pumps r ! j = PumpAt p" "j < length (pumps r)" "t = put_pump r j (settle_pump p
      (pump_code E L (rw_pumps (world_of r) ! j) p m (con (base r))))"
    using assms by (auto simp: rfire_def split: if_splits pump.splits)
  let ?m = "pump_code E L (rw_pumps (world_of r) ! j) p m (con (base r))"
  have "safe (con (base r)) ?m" if "\<not> excluded r j"
    using that p(1) by (intro code.safe_pump_code) (auto simp: excluded_def pump_reader_def)
  then show ?thesis
    using p code.settle_pump_ok [of "con (base r)" ?m p] by (cases "settle_pump p ?m") auto
qed

lemma pump_resume_run:
  assumes "rfire E L (PumpResume j) r = Some t" and "rworld_ok r"
  shows "\<exists>p g k h c. pumps r ! j = PumpWaits p g k \<and> j < length (pumps r) \<and> t = put_pump r j (h, c) \<and>
    settle_pump p (k (con (base r))) = (h, c) \<and>
    (\<not> excluded r j \<longrightarrow> W (con (base r)) c \<and> code.pump_ok h c)"
proof -
  obtain p g k where p: "pumps r ! j = PumpWaits p g k" "j < length (pumps r)" "g (con (base r))"
    "t = put_pump r j (settle_pump p (k (con (base r))))"
    using assms by (auto simp: rfire_def split: if_splits pump.splits)
  have "safe (con (base r)) (k (con (base r)))" if "\<not> excluded r j"
  proof -
    have "code.pump_ok (pumps r ! j) (con (base r))"
      using that p(2) assms(2) by (auto simp: rworld_ok_def)
    with p(1,3) show ?thesis by simp
  qed
  then show ?thesis
    using p code.settle_pump_ok [of "con (base r)" "k (con (base r))" p]
    by (cases "settle_pump p (k (con (base r)))") auto
qed

lemma rworld_step:
  assumes "rfire E L ev r = Some t" and "rsys_ok r" and "rworld_ok r"
  shows "W (con (base r)) (con (base t)) \<or> (\<exists>j. event_pump ev = Some j \<and> excluded r j)"
proof (cases ev)
  case (Base e)
  then obtain s where s: "fire E e (base r) = Some s" "base t = s"
    using assms(1) by (auto simp: rfire_def split: if_splits option.splits)
  then have "W (con (base r)) (con s)"
    using relation_step assms(2,3) unfolding sys_step_iff_fire rsys_ok_def rworld_ok_def by blast
  with s show ?thesis by simp
next
  case (PumpGo j m)
  then show ?thesis
    using pump_go_run assms(1) by (fastforce simp: put_pump_def)
next
  case (PumpResume j)
  then show ?thesis
    using pump_resume_run [OF _ assms(3)] assms(1) by (fastforce simp: put_pump_def)
qed

end

context pump_relation
begin

lemma prefix_reader:
  "prefix (rw_pumps (world_of r)) (rw_pumps (world_of t)) \<Longrightarrow> j < length (rw_pumps (world_of r)) \<Longrightarrow>
    pump_reader t j = pump_reader r j"
  by (auto simp: pump_reader_def prefix_def nth_append)

lemma pumps_ok_extended:
  assumes "rworld_ok r" and "step_ok (con (base r)) (con (base t))"
    and "prefix (rw_pumps (world_of r)) (rw_pumps (world_of t))"
    and "pumps t = new_pumps (con (base t)) ps" and "length ps = length (pumps r)"
    and "\<And>j. j < length ps \<Longrightarrow> ps ! j = pumps r ! j \<or> code.pump_ok (ps ! j) (con (base t)) \<or>
      Ex (pump_reader r j) \<and> starting (ps ! j)"
  shows "length (pumps t) = length (rw_pumps (world_of t)) \<and>
    (\<forall>j < length (pumps t). excluded t j \<or> code.pump_ok (pumps t ! j) (con (base t)))"
proof (intro conjI allI impI)
  have len: "length ps = length (rw_pumps (world_of r))" using assms(1,5) by (simp add: rworld_ok_def)
  then show "length (pumps t) = length (rw_pumps (world_of t))"
    using assms(3,4) by (simp add: length_new_pumps prefix_length_le)
  show "excluded t j \<or> code.pump_ok (pumps t ! j) (con (base t))" if "j < length (pumps t)" for j
  proof (cases "j < length ps")
    case False
    with that assms(4) show ?thesis by (simp add: nth_new_pumps)
  next
    case True
    then have n: "pumps t ! j = ps ! j" using assms(4) by (simp add: nth_new_pumps)
    have rj: "pump_reader t j = pump_reader r j"
      using prefix_reader [OF assms(3)] True len by simp
    have "excluded r j \<or> code.pump_ok (pumps r ! j) (con (base r))"
      using assms(1,5) True by (simp add: rworld_ok_def)
    with assms(6) [OF True] n rj show ?thesis
      using code.pump_ok_stable [OF transp_step_ok assms(2)] by (auto simp: excluded_def)
  qed
qed

lemma starting_kept: "settle_pump p m = (g, c) \<Longrightarrow> p = PumpStart \<Longrightarrow> starting g \<or> code.pump_ok g c"
  by (induction p m rule: settle_pump.induct) auto

lemma rworld_ok_step:
  assumes "rfire E L ev r = Some t" and "rsys_ok r" and "rworld_ok r"
    and "prefix (rw_pumps (world_of r)) (rw_pumps (world_of t))"
  shows "rworld_ok t"
proof -
  have st: "step_ok (con (base r)) (con (base t))"
    using rsys_ok_step [OF assms(1,2)] by (simp add: proc_step_def)
  have put: "rworld_ok t" if t: "t = put_pump r j (g, c)" and g: "excluded r j \<longrightarrow> starting g \<or> code.pump_ok g c"
    "\<not> excluded r j \<longrightarrow> code.pump_ok g c" and j: "j < length (pumps r)" for j g c
  proof -
    have "(pumps r)[j := g] ! i = pumps r ! i \<or> code.pump_ok ((pumps r)[j := g] ! i) (con (base t)) \<or>
        Ex (pump_reader r i) \<and> starting ((pumps r)[j := g] ! i)" if "i < length ((pumps r)[j := g])" for i
      using g t j by (cases "i = j") (auto simp: put_pump_def excluded_def)
    from pumps_ok_extended [OF assms(3) st assms(4) _ _ this]
    have "length (pumps t) = length (rw_pumps (world_of t)) \<and>
      (\<forall>j < length (pumps t). excluded t j \<or> code.pump_ok (pumps t ! j) (con (base t)))"
      by (simp add: t put_pump_def)
    moreover have "threads.threads_ok (base t)"
      using assms(3) st t threads_moves by (auto simp: rworld_ok_def put_pump_def)
    ultimately show ?thesis by (simp add: rworld_ok_def)
  qed
  show ?thesis
  proof (cases ev)
    case (Base e)
    then have b: "fire E e (base r) = Some (base t)" "pumps t = new_pumps (con (base t)) (pumps r)"
      using assms(1) by (auto simp: rfire_def split: if_splits option.splits)
    then have "threads.threads_ok (base t)"
      using relation_step assms(2,3) unfolding sys_step_iff_fire rsys_ok_def rworld_ok_def by blast
    then show ?thesis
      using pumps_ok_extended [OF assms(3) st assms(4) b(2) refl] by (simp add: rworld_ok_def)
  next
    case (PumpGo j m)
    then obtain p g c where g: "pumps r ! j = PumpAt p" "j < length (pumps r)" "t = put_pump r j (g, c)"
      "settle_pump p (pump_code E L (rw_pumps (world_of r) ! j) p m (con (base r))) = (g, c)"
      "\<not> excluded r j \<longrightarrow> code.pump_ok g c"
      using pump_go_run assms(1) by blast
    then have "excluded r j \<longrightarrow> starting g \<or> code.pump_ok g c"
      using starting_kept [OF g(4)] by (auto simp: excluded_def)
    from put [OF g(3) this g(5,2)] show ?thesis .
  next
    case (PumpResume j)
    then obtain p gd k g c where g: "pumps r ! j = PumpWaits p gd k" "j < length (pumps r)"
      "t = put_pump r j (g, c)" "settle_pump p (k (con (base r))) = (g, c)"
      "\<not> excluded r j \<longrightarrow> code.pump_ok g c"
      using pump_resume_run [OF _ assms(3)] assms(1) by blast
    then have "excluded r j \<longrightarrow> starting g \<or> code.pump_ok g c"
      using starting_kept [OF g(4)] by (auto simp: excluded_def)
    from put [OF g(3) this g(5,2)] show ?thesis .
  qed
qed

lemma rworld_ok_start: "rw_pumps w = [] \<Longrightarrow> rworld_ok (start_rsys schema config n w)"
  by (simp add: rworld_ok_def start_rsys_def threads.threads_ok_start) (simp add: start_sys_def NewConn_def)

end

subsection \<open>The table of readers\<close>

text \<open>
  One goroutine per reader; the table only grows, and keeps \<open>readers_ok\<close>.  A reader that is
  closed stays so.
\<close>

definition table_ok :: "'n redis_world \<Rightarrow> bool" where
  "table_ok w \<longleftrightarrow> readers_ok w \<and> distinct (map fst (rw_pumps w))"

definition table_step :: "'n redis_world \<Rightarrow> 'n redis_world \<Rightarrow> bool" where
  "table_step w w' \<longleftrightarrow> prefix (rw_pumps w) (rw_pumps w') \<and>
     length (rw_readers w) \<le> length (rw_readers w') \<and> (table_ok w \<longrightarrow> table_ok w')"

definition reader_closed :: "nat \<Rightarrow> 'n redis_world \<Rightarrow> bool" where
  "reader_closed i w \<longleftrightarrow> i < length (rw_readers w) \<and> r_state (reader_at i w) = readerStateClosed"

definition closed_step :: "nat \<Rightarrow> 'n redis_world \<Rightarrow> 'n redis_world \<Rightarrow> bool" where
  "closed_step i w w' \<longleftrightarrow> (reader_closed i w \<longrightarrow> reader_closed i w')"

lemma table_step_order: "reflp table_step" "transp table_step"
  by (auto simp: table_step_def reflp_def transp_def intro: prefix_order.trans)

lemma closed_step_order: "reflp (closed_step i)" "transp (closed_step i)"
  by (auto simp: closed_step_def reflp_def transp_def)

lemma step_refl: "table_step w w" "closed_step i w w"
  by (simp_all add: table_step_def closed_step_def)

lemma change_reader_table [simp]:
  "rw_pumps (change_reader i f w) = rw_pumps w" "table_ok (change_reader i f w) = table_ok w"
  "table_ok (w\<lparr>rw_net := n\<rparr>) = table_ok w" "reader_closed i (w\<lparr>rw_net := n\<rparr>) = reader_closed i w"
  by (simp_all add: change_reader_def table_ok_def readers_ok_def reader_closed_def reader_at_def)

lemma change_reader_closed:
  "(\<forall>r. r_state (f r) = r_state r) \<or> k \<noteq> i \<Longrightarrow> reader_closed i (change_reader k f w) = reader_closed i w"
  by (cases "k = i") (auto simp: reader_closed_def change_reader_def reader_at_def)

lemma redis_start_step:
  "table_step w (snd (redis_HandleSubscriptionStart L x w))"
  "closed_step i w (snd (redis_HandleSubscriptionStart L x w))"
proof -
  have "distinct (map fst (rw_pumps w)) \<Longrightarrow> readers_ok w \<Longrightarrow>
      distinct (map fst (rw_pumps (snd (redis_HandleSubscriptionStart L x w))))"
    by (auto simp: redis_HandleSubscriptionStart_def readers_ok_def store_reader_def Let_def
        split: call.splits prod.splits sum.splits)
  then show "table_step w (snd (redis_HandleSubscriptionStart L x w))"
    using readers_ok_start [of w L x]
    by (auto simp: table_step_def table_ok_def)
      (auto simp: redis_HandleSubscriptionStart_def store_reader_def Let_def
        split: call.splits prod.splits sum.splits)
  show "closed_step i w (snd (redis_HandleSubscriptionStart L x w))"
    by (auto simp: closed_step_def reader_closed_def redis_HandleSubscriptionStart_def store_reader_def
        Let_def reader_at_def nth_append split: call.splits prod.splits sum.splits)
qed

lemma reader_close_step: "table_step w (reader_close L k w)" "closed_step i w (reader_close L k w)"
proof -
  show "table_step w (reader_close L k w)"
    by (auto simp: table_step_def table_ok_def readers_ok_close)
  show "closed_step i w (reader_close L k w)"
  proof (cases "k < length (rw_readers w)")
    case True
    then show ?thesis by (auto simp: closed_step_def reader_closed_def reader_close_state)
  next
    case False
    then show ?thesis
      using reader_close_other [of i k L w] by (auto simp: closed_step_def reader_closed_def)
  qed
qed

lemma close_readers_step: "table_step w (close_readers L is w)" "closed_step i w (close_readers L is w)"
proof -
  have "V w (fold (reader_close L) is w)" if "reflp V" "transp V" "\<And>k w. V w (reader_close L k w)"
    for V :: "'a redis_world \<Rightarrow> 'a redis_world \<Rightarrow> bool" and w
    by (induction "is" arbitrary: w) (auto intro: reflpD [OF that(1)] transpD [OF that(2) that(3)])
  then show "table_step w (close_readers L is w)" "closed_step i w (close_readers L is w)"
    unfolding close_readers_def using table_step_order closed_step_order reader_close_step by blast+
qed

lemma redis_methods_step:
  "methods_ok table_step (redis_methods L)" "methods_ok (closed_step i) (redis_methods L)"
  using redis_start_step reader_close_step close_readers_step step_refl
  by (auto simp: methods_ok_def method_ok_def redis_methods_def no_methods_def
      redis_HandleSubscriptionStop_def redis_HandleWebsocketClose_def split: option.splits)

text \<open>The environments in which the Redis handler is the only handler.\<close>

lemma redis_only_env:
  "env_ok table_step (redis_env\<lparr>impls := (\<lambda>n. redis_methods L)\<rparr>)"
  "env_ok (closed_step i) (redis_env\<lparr>impls := (\<lambda>n. redis_methods L)\<rparr>)"
  using redis_methods_step(1) [of L] redis_methods_step(2) [of i L] by (simp_all add: env_ok_def calls_ok_def redis_env_def step_refl)

abbreviation tables_rel :: "'n redis_world conn \<Rightarrow> 'n redis_world conn \<Rightarrow> bool" where
  "tables_rel \<equiv> world_rel table_step"

abbreviation closed_rel :: "nat \<Rightarrow> 'n redis_world conn \<Rightarrow> 'n redis_world conn \<Rightarrow> bool" where
  "closed_rel i \<equiv> world_rel (closed_step i)"

lemma tables_guarantee: "env_ok table_step E \<Longrightarrow> pump_relation table_step E tables_rel (\<lambda>_. False) L"
  by (intro pump_relation.intro world_guarantee.is_connection_relation world_guarantee.intro pump_relation_axioms.intro)
    (auto simp: table_step_order lib_ok_def, auto simp: table_step_def)

lemma closed_guarantee: "env_ok (closed_step i) E \<Longrightarrow> pump_relation (closed_step i) E (closed_rel i) (\<lambda>k. k = i) L"
  by (intro pump_relation.intro world_guarantee.is_connection_relation world_guarantee.intro pump_relation_axioms.intro)
    (auto simp: closed_step_order lib_ok_def, auto simp: closed_step_def change_reader_closed)

interpretation outside: world_guarantee table_step "redis_env\<lparr>impls := (\<lambda>n. redis_methods L)\<rparr>" for L
  by unfold_locales (rule table_step_order redis_only_env)+

interpretation tables: pump_relation table_step "redis_env\<lparr>impls := (\<lambda>n. redis_methods L)\<rparr>" tables_rel "\<lambda>_. False" L for L
  by (rule tables_guarantee) (rule redis_only_env)

text \<open>For examples: every field has a topic of its own name.\<close>

definition own_topics :: "string list redis_lib" where
  "own_topics = demo_redis\<lparr>schema_fields := (\<lambda>s. Returns (\<lambda>f. Some (topic_field [StringTopic f])))\<rparr>"

definition fed_env :: "string list redis_world env" where
  "fed_env = redis_env\<lparr>impls := (\<lambda>n. redis_methods own_topics)\<rparr>"

subsection \<open>Properties\<close>

lemma tables_reach:
  assumes "env_ok table_step E" and "rreaches E L r t" and "rsys_ok r" and "table_ok (world_of r)"
    and "pump_relation.rworld_ok tables_rel (\<lambda>_. False) r"
  shows "rsys_ok t \<and> table_ok (world_of t) \<and> pump_relation.rworld_ok tables_rel (\<lambda>_. False) t"
  using assms(2-5)
proof (induction rule: rreaches.induct)
  case (rreaches_step r s ev t)
  note pg = tables_guarantee [OF assms(1)]
  have s: "rsys_ok s" "table_ok (world_of s)" "pump_relation.rworld_ok tables_rel (\<lambda>_. False) s"
    using rreaches_step by auto
  have "table_step (world_of s) (world_of t)"
    using pump_relation.rworld_step [OF pg rreaches_step(2) s(1,3)]
      pump_relation.excluded_def [OF pg] by (auto simp: world_rel_def)
  then have step: "prefix (rw_pumps (world_of s)) (rw_pumps (world_of t))" "table_ok (world_of t)"
    using s(2) by (auto simp: table_step_def)
  show ?case
    using rsys_ok_step [OF rreaches_step(2) s(1)] step(2)
      pump_relation.rworld_ok_step [OF pg rreaches_step(2) s(1,3) step(1)] by blast
qed auto

text \<open>
  The environments of C11.  Each handler is a Redis handler, or does not touch what the Redis
  handler keeps, and neither does the websocket library.
\<close>

definition same_readers :: "'n redis_world \<Rightarrow> 'n redis_world \<Rightarrow> bool" where
  "same_readers w w' \<longleftrightarrow> rw_readers w' = rw_readers w \<and> rw_subscriptions w' = rw_subscriptions w \<and>
     rw_pumps w' = rw_pumps w"

definition redis_hosted :: "'n redis_lib \<Rightarrow> 'n redis_world env \<Rightarrow> bool" where
  "redis_hosted L E \<longleftrightarrow> env_ok same_readers (E\<lparr>impls := (\<lambda>n. no_methods)\<rparr>) \<and>
     (\<forall>n. impls E n = redis_methods L \<or> methods_ok same_readers (impls E n))"

lemma methods_ok_mono: "methods_ok V D \<Longrightarrow> (\<And>w w'. V w w' \<Longrightarrow> V' w w') \<Longrightarrow> methods_ok V' D"
  by (simp add: methods_ok_def method_ok_def)

lemma hosted_env:
  assumes "redis_hosted L E" and "methods_ok V (redis_methods L)" and "\<And>w w'. same_readers w w' \<Longrightarrow> V w w'"
  shows "env_ok V E"
proof -
  have "methods_ok V (impls E n)" for n
    using assms methods_ok_mono [of same_readers "impls E n" V] unfolding redis_hosted_def by metis
  then show ?thesis
    using assms(1,3) by (simp add: redis_hosted_def env_ok_def calls_ok_def)
qed

lemma same_readers_step: "same_readers w w' \<Longrightarrow> table_step w w'" "same_readers w w' \<Longrightarrow> closed_step i w w'"
  by (simp_all add: same_readers_def table_step_def table_ok_def readers_ok_def closed_step_def
      reader_closed_def reader_at_def)

lemma hosted_env_ok: "redis_hosted L E \<Longrightarrow> env_ok table_step E" "redis_hosted L E \<Longrightarrow> env_ok (closed_step i) E"
  by (erule hosted_env, rule redis_methods_step, erule same_readers_step)+

text \<open>Every entry of the table of subscriptions has a goroutine for its reader.\<close>

definition served :: "'n redis_world \<Rightarrow> bool" where
  "served w \<longleftrightarrow> snd ` set (rw_subscriptions w) \<subseteq> fst ` set (rw_pumps w)"

definition serving :: "'n redis_world \<Rightarrow> 'n redis_world \<Rightarrow> bool" where
  "serving w w' \<longleftrightarrow> (served w \<longrightarrow> served w')"

lemma serving_order: "reflp serving" "transp serving"
  by (auto simp: serving_def reflp_def transp_def)

lemma serving_same:
  "rw_subscriptions w' = rw_subscriptions w \<Longrightarrow> rw_pumps w' = rw_pumps w \<Longrightarrow> serving w w'"
  by (simp add: serving_def served_def)

lemma redis_start_serving: "serving w (snd (redis_HandleSubscriptionStart L x w))"
  by (auto simp: redis_HandleSubscriptionStart_def serving_def served_def store_reader_def Let_def
      split: call.splits prod.splits sum.splits dest!: subsetD [OF set_put_entry])

lemma redis_methods_serving: "methods_ok serving (redis_methods L)"
  using redis_start_serving
  by (auto simp: methods_ok_def method_ok_def redis_methods_def no_methods_def
      redis_HandleSubscriptionStop_def redis_HandleWebsocketClose_def serving_same split: option.splits)

lemma serving_guarantee:
  assumes "redis_hosted L E"
  shows "pump_relation serving E (world_rel serving) (\<lambda>_. False) L"
proof (intro pump_relation.intro world_guarantee.is_connection_relation world_guarantee.intro
    pump_relation_axioms.intro)
  show "env_ok serving E"
    by (rule hosted_env [OF assms redis_methods_serving]) (simp add: same_readers_def serving_same)
qed (auto simp: serving_order lib_ok_net serving_same)

text \<open>
  A relation that both kinds of goroutines keep to, none excluded, holds of every execution of
  the composed system, provided the table of readers is kept.
\<close>

lemma composed_relation:
  assumes "env_ok table_step E" and "pump_relation V E W (\<lambda>_. False) L" and "rreaches E L r t"
    and "rsys_ok r" and "table_ok (world_of r)" and "pump_relation.rworld_ok tables_rel (\<lambda>_. False) r"
    and "pump_relation.rworld_ok W (\<lambda>_. False) r"
  shows "rsys_ok t \<and> W (con (base r)) (con (base t)) \<and> pump_relation.rworld_ok W (\<lambda>_. False) t"
  using assms(3-7)
proof (induction rule: rreaches.induct)
  case (rreaches_refl r)
  have "connection_relation V E W" using assms(2) by (rule pump_relation.axioms(1))
  then have "reader_guarantee V E step_ok W (\<lambda>_. True)" by (rule connection_relation.axioms(1))
  then have "conn_guarantee V E step_ok W (\<lambda>_. True)" by (rule reader_guarantee.axioms(1))
  with rreaches_refl show ?case by (simp add: conn_guarantee.G_refl)
next
  case (rreaches_step r s ev t)
  then have s: "rsys_ok s" "W (con (base r)) (con (base s))" "pump_relation.rworld_ok W (\<lambda>_. False) s"
    by blast+
  have tab: "table_ok (world_of s)" "pump_relation.rworld_ok tables_rel (\<lambda>_. False) s"
    using tables_reach [OF assms(1) rreaches_step(1)] rreaches_step.prems by blast+
  have "tables_rel (con (base s)) (con (base t))"
    using pump_relation.rworld_step [OF tables_guarantee [OF assms(1)] rreaches_step(2) s(1) tab(2)]
      pump_relation.excluded_def [OF tables_guarantee [OF assms(1)]] by auto
  then have pre: "prefix (rw_pumps (world_of s)) (rw_pumps (world_of t))"
    by (simp add: world_rel_def table_step_def)
  have "W (con (base s)) (con (base t))"
    using pump_relation.rworld_step [OF assms(2) rreaches_step(2) s(1,3)]
      pump_relation.excluded_def [OF assms(2)] by auto
  moreover have "transp W"
    using assms(2) by (simp add: pump_relation_def connection_relation_def reader_guarantee_def conn_guarantee_def)
  ultimately show ?case
    using s(2) rsys_ok_step [OF rreaches_step(2) s(1)]
      pump_relation.rworld_ok_step [OF assms(2) rreaches_step(2) s(1,3) pre]
    by (auto dest: transpD)
qed

text \<open>
  C11: the connection and the goroutines of its Redis handler together, in every interleaving.
  Let every handler be the Redis handler or one that does not touch what that keeps, and let no
  subscription be there at the start.  Then in every state each id in the table of subscriptions
  has exactly one goroutine for its reader, no two goroutines have the same reader, the table is
  well-formed, and what holds of a connection alone still holds: the queues are bounded and
  closed in order, and subscriptions come after the handshake.
\<close>

theorem redis_goroutines_keep_the_invariants:
  assumes "redis_hosted L E" and "rw_subscriptions w = []" and "rw_pumps w = []"
    and "rreaches E L (start_rsys schema config n w) r"
  shows "(\<forall>k i. load_reader (world_of r) k = Some i \<longrightarrow> (\<exists>!j. j < length (pumps r) \<and> pump_reader r j = i)) \<and>
    inj_on (pump_reader r) {..<length (pumps r)} \<and>
    (\<forall>j < length (pumps r). pump_reader r j < length (rw_readers (world_of r))) \<and>
    readers_ok (world_of r) \<and> conn_ok (con (base r))"
proof -
  note pg = tables_guarantee [OF hosted_env_ok(1) [OF assms(1)]] and sg = serving_guarantee [OF assms(1)]
  have w: "world_of (start_rsys schema config n w) = w"
    by (simp add: start_rsys_def start_sys_def NewConn_def)
  have ok: "table_ok w" "served w" using assms(2,3) by (simp_all add: table_ok_def readers_ok_def served_def)
  note start = rsys_ok_start pump_relation.rworld_ok_start [OF pg assms(3)]
    pump_relation.rworld_ok_start [OF sg assms(3)]
  have r: "rsys_ok r" "table_ok (world_of r)" "pump_relation.rworld_ok tables_rel (\<lambda>_. False) r"
    using tables_reach [OF hosted_env_ok(1) [OF assms(1)] assms(4) start(1) _ start(2)] ok w by auto
  have "served (world_of r)"
    using composed_relation [OF hosted_env_ok(1) [OF assms(1)] sg assms(4) start(1) _ start(2,3)] ok w
    by (simp add: world_rel_def serving_def)
  have len: "length (pumps r) = length (rw_pumps (world_of r))"
    using r(3) by (simp add: pump_relation.rworld_ok_def [OF pg])
  have inj: "inj_on (pump_reader r) {..<length (pumps r)}"
    using r(2) len by (auto simp: table_ok_def inj_on_def pump_reader_def distinct_conv_nth)
  have "\<exists>!j. j < length (pumps r) \<and> pump_reader r j = i" if "load_reader (world_of r) k = Some i" for k i
  proof -
    have "i \<in> fst ` set (rw_pumps (world_of r))"
      using that \<open>served (world_of r)\<close> by (force simp: load_reader_def served_def dest: map_of_SomeD)
    then obtain j where "j < length (pumps r)" "pump_reader r j = i"
      using len by (auto simp: pump_reader_def in_set_conv_nth)
    with inj show ?thesis by (auto simp: inj_on_def)
  qed
  moreover have "\<forall>j < length (pumps r). pump_reader r j < length (rw_readers (world_of r))"
    using r(2) len by (auto simp: table_ok_def readers_ok_def pump_reader_def)
  ultimately show ?thesis
    using r inj by (simp add: table_ok_def rsys_ok_def sys_ok_def)
qed

text \<open>
  A connection whose Redis handler is attached at once; the handshake and a subscription
  are read and processed, and a goroutine starts.
\<close>

definition fed_start :: "string list rsys" where
  "fed_start = start_rsys (Some 0) demo_config 0 demo_redis_world"

definition fed_subscribes :: "revent list" where
  "fed_subscribes = map Base (adds_handler (HObj 0) 0 @ reader_starts @ reads init_frame @ reads start_frame @
     ProcGo SelPing # ProcGo SelIncoming # replicate 4 ProcResume @ [ProcGo SelIncoming, ProcResume, ProcResume])"

lemma fed_subscribes_run:
  "map_option (\<lambda>r. (length (pumps r), rw_pumps (world_of r)))
     (rfire_all fed_env own_topics fed_subscribes fed_start) = 
   Some (1, [(0, \<lparr>topics = [StringTopic ''onJoin'', StringTopic ''onLeft'']\<rparr>)])"
  by code_simp

lemma fed_env_ok: "env_ok table_step fed_env" "env_ok (closed_step i) fed_env"
  unfolding fed_env_def by (rule redis_only_env)+

lemma demo_world_ok: "table_ok demo_redis_world" "rw_pumps demo_redis_world = []"
  by (simp_all add: demo_redis_world_def table_ok_def readers_ok_def)

lemma fed_env_hosted: "redis_hosted own_topics fed_env"
  by (simp add: redis_hosted_def fed_env_def redis_env_def env_ok_def calls_ok_def methods_ok_def
      no_methods_def same_readers_def)

lemma fed_subscribes_entry:
  "map_option (\<lambda>r. load_reader (world_of r) ''1'') (rfire_all fed_env own_topics fed_subscribes fed_start) =
   Some (Some 0)"
  by code_simp

theorem redis_goroutines_keep_the_invariants_witness:
  "\<exists>r. rreaches fed_env own_topics fed_start r \<and> load_reader (world_of r) ''1'' = Some 0 \<and>
     (\<exists>!j. j < length (pumps r) \<and> pump_reader r j = 0)"
proof -
  obtain r where r: "rfire_all fed_env own_topics fed_subscribes fed_start = Some r"
    "load_reader (world_of r) ''1'' = Some 0"
    using fed_subscribes_entry by auto
  have reach: "rreaches fed_env own_topics fed_start r"
    by (rule rfire_all_reaches [OF r(1) rreaches_refl])
  have w: "rw_subscriptions demo_redis_world = []" "rw_pumps demo_redis_world = []"
    by (simp_all add: demo_redis_world_def)
  from redis_goroutines_keep_the_invariants [OF fed_env_hosted w reach [unfolded fed_start_def]] r(2) reach
  show ?thesis by blast
qed

text \<open>A goroutine that has passed its start never starts again.\<close>

lemma settle_not_starting: "settle_pump p m = (g, c) \<Longrightarrow> p \<noteq> PumpStart \<Longrightarrow> \<not> starting g"
  by (induction p m rule: settle_pump.induct) auto

lemma nth_put_pump:
  "j < length (pumps r) \<Longrightarrow> k < length (pumps r) \<Longrightarrow>
    pumps (put_pump r k x) ! j = (if j = k then fst x else pumps r ! j)"
  by (auto simp: put_pump_def nth_new_pumps)

lemma started_step:
  assumes "rfire E L ev r = Some t" and "j < length (pumps r)" and "\<not> starting (pumps r ! j)"
  shows "j < length (pumps t) \<and> \<not> starting (pumps t ! j)"
proof (cases ev)
  case (Base e)
  with assms show ?thesis
    by (auto simp: rfire_def nth_new_pumps new_pumps_def nth_append split: if_splits option.splits)
next
  case (PumpGo k m)
  then obtain p where p: "pumps r ! k = PumpAt p" "k < length (pumps r)" "t = put_pump r k (settle_pump p
      (pump_code E L (rw_pumps (world_of r) ! k) p m (con (base r))))"
    using assms(1) by (auto simp: rfire_def split: if_splits pump.splits)
  have "\<not> starting (pumps t ! j)"
    using p assms(2,3) settle_not_starting [of p "pump_code E L (rw_pumps (world_of r) ! k) p m (con (base r))"]
    by (auto simp: nth_put_pump prod_eq_iff)
  then show ?thesis using assms(2) p by (simp add: put_pump_def new_pumps_def)
next
  case (PumpResume k)
  then obtain p g h where p: "pumps r ! k = PumpWaits p g h" "k < length (pumps r)"
    "t = put_pump r k (settle_pump p (h (con (base r))))"
    using assms(1) by (auto simp: rfire_def split: if_splits pump.splits)
  have "\<not> starting (pumps t ! j)"
    using p assms(2,3) settle_not_starting [of p "h (con (base r))"]
    by (auto simp: nth_put_pump prod_eq_iff)
  then show ?thesis using assms(2) p by (simp add: put_pump_def new_pumps_def)
qed

lemma event_pump_bound: "rfire E L ev r = Some t \<Longrightarrow> event_pump ev = Some j \<Longrightarrow> j < length (pumps r)"
  by (cases ev) (auto simp: rfire_def split: if_splits)

definition past_start :: "nat \<Rightarrow> nat \<Rightarrow> 'n rsys \<Rightarrow> bool" where
  "past_start i j r \<longleftrightarrow> j < length (pumps r) \<and> \<not> starting (pumps r ! j) \<and> pump_reader r j = i"

text \<open>What the two instances say of a state.\<close>

definition layers_ok :: "nat \<Rightarrow> 'n rsys \<Rightarrow> bool" where
  "layers_ok i r \<longleftrightarrow> rsys_ok r \<and> table_ok (world_of r) \<and>
     pump_relation.rworld_ok tables_rel (\<lambda>_. False) r \<and>
     pump_relation.rworld_ok (closed_rel i) (\<lambda>k. k = i) r"

lemma layers_step:
  assumes "env_ok table_step E" and "env_ok (closed_step i) E" and "rfire E L ev r = Some t"
    and "layers_ok i r"
  shows "layers_ok i t \<and> (past_start i j r \<longrightarrow> past_start i j t \<and> closed_step i (world_of r) (world_of t))"
proof -
  note pt = tables_guarantee [OF assms(1)] and pc = closed_guarantee [OF assms(2)]
  have r: "rsys_ok r" "table_ok (world_of r)" "pump_relation.rworld_ok tables_rel (\<lambda>_. False) r"
    "pump_relation.rworld_ok (closed_rel i) (\<lambda>k. k = i) r"
    using assms(4) by (auto simp: layers_ok_def)
  have len: "length (pumps r) = length (rw_pumps (world_of r))"
    using r(3) by (simp add: pump_relation.rworld_ok_def [OF pt])
  have "table_step (world_of r) (world_of t)"
    using pump_relation.rworld_step [OF pt assms(3) r(1,3)] pump_relation.excluded_def [OF pt] by (auto simp: world_rel_def)
  then have step: "prefix (rw_pumps (world_of r)) (rw_pumps (world_of t))" "table_ok (world_of t)"
    using r(2) by (auto simp: table_step_def)
  have "layers_ok i t"
    using rsys_ok_step [OF assms(3) r(1)] step(2)
      pump_relation.rworld_ok_step [OF pt assms(3) r(1,3) step(1)]
      pump_relation.rworld_ok_step [OF pc assms(3) r(1,4) step(1)]
    by (simp add: layers_ok_def)
  moreover have "past_start i j t \<and> closed_step i (world_of r) (world_of t)" if p: "past_start i j r"
  proof
    show "past_start i j t"
      using p started_step [OF assms(3)] pump_relation.prefix_reader [OF pt step(1)] len
      by (auto simp: past_start_def)
    have "k = j" if "k < length (pumps r)" "pump_reader r k = i" for k
      using that p r(2) len by (auto simp: past_start_def table_ok_def pump_reader_def distinct_conv_nth)
    then show "closed_step i (world_of r) (world_of t)"
      using pump_relation.rworld_step [OF pc assms(3) r(1,4)] pump_relation.excluded_def [OF pc] p
        event_pump_bound [OF assms(3)]
      by (auto simp: past_start_def world_rel_def)
  qed
  ultimately show ?thesis by blast
qed

lemma layers_reach:
  assumes "env_ok table_step E" and "env_ok (closed_step i) E" and "rreaches E L r t" and "layers_ok i r"
  shows "layers_ok i t \<and> (past_start i j r \<longrightarrow> past_start i j t \<and> closed_step i (world_of r) (world_of t))"
  using assms(3,4)
proof (induction rule: rreaches.induct)
  case (rreaches_step r s ev t)
  then have "layers_ok i s" by blast
  from layers_step [OF assms(1,2) rreaches_step(2) this, of j] rreaches_step.IH [OF rreaches_step.prems]
  show ?case by (auto simp: closed_step_def)
qed (simp add: closed_step_def)

text \<open>
  C12: stopping is final.  Once the goroutine of a reader has set it to running, a reader that
  is closed, by a \<open>stop\<close> message or by the closing of the connection, stays closed in every
  continuation, whatever the peer, the users and the other goroutines do.
\<close>

theorem stopped_readers_stay_stopped:
  assumes "env_ok table_step E" and "env_ok (closed_step i) E" and "table_ok w" and "rw_pumps w = []"
    and "rreaches E L (start_rsys schema config n w) r" and "past_start i j r"
    and "reader_closed i (world_of r)" and "rreaches E L r t"
  shows "reader_closed i (world_of t)"
proof -
  have w: "world_of (start_rsys schema config n w) = w"
    by (simp add: start_rsys_def start_sys_def NewConn_def)
  have "layers_ok i (start_rsys schema config n w)"
    using pump_relation.rworld_ok_start [OF tables_guarantee [OF assms(1)] assms(4)]
      pump_relation.rworld_ok_start [OF closed_guarantee [OF assms(2)] assms(4)] assms(3) w
    by (simp add: layers_ok_def rsys_ok_start)
  then have "layers_ok i r" using layers_reach [OF assms(1,2,5)] by blast
  from layers_reach [OF assms(1,2,8) this, of j] assms(6,7) show ?thesis
    by (simp add: closed_step_def)
qed

text \<open>
  The connection above goes on: the goroutine listens, and the client stops its subscription.
\<close>

definition stop_frame :: json where
  "stop_frame = JObj [(''id'', JStr ''1''), (''type'', JStr ''stop''),
     (''payload'', JObj [(''id'', JStr ''1'')])]"

definition goroutine_listens :: "revent list" where
  "goroutine_listens = [PumpGo 0 OtherReply, PumpResume 0, PumpGo 0 OtherReply] @ replicate 4 (PumpResume 0)"

definition client_stops :: "revent list" where
  "client_stops = map Base (reads stop_frame @ [ProcGo SelIncoming, ProcResume])"

definition stopped_while_listening :: "revent list" where
  "stopped_while_listening = fed_subscribes @ goroutine_listens @ client_stops"

lemma stopped_while_listening_run:
  "map_option (\<lambda>r. (length (pumps r), starting (pumps r ! 0), pump_reader r 0, reader_closed 0 (world_of r)))
     (rfire_all fed_env own_topics stopped_while_listening fed_start) = Some (1, False, 0, True)"
  by code_simp

theorem stopped_readers_stay_stopped_witness:
  "\<exists>r. rreaches fed_env own_topics fed_start r \<and>
     {t. rreaches fed_env own_topics r t} \<subseteq> {t. reader_closed 0 (world_of t)}"
proof -
  obtain r where r: "rfire_all fed_env own_topics stopped_while_listening fed_start = Some r"
    "length (pumps r) = 1" "\<not> starting (pumps r ! 0)" "pump_reader r 0 = 0" "reader_closed 0 (world_of r)"
    using stopped_while_listening_run by auto
  have past: "past_start 0 0 r" using r(2-4) by (simp add: past_start_def)
  have reach: "rreaches fed_env own_topics fed_start r"
    by (rule rfire_all_reaches [OF r(1) rreaches_refl])
  from stopped_readers_stay_stopped [OF fed_env_ok demo_world_ok reach [unfolded fed_start_def] past r(5)] reach
  show ?thesis by blast
qed

fun pump_panic :: "'n pump \<Rightarrow> panic option" where
  "pump_panic (PumpCrashed p) = Some p"
| "pump_panic g = None"

lemma pump_panic_iff: "pump_panic g = Some p \<longleftrightarrow> g = PumpCrashed p"
  by (cases g) auto

text \<open>
  C35: an ordinary \<open>stop\<close> can end the program.  If it is processed between a reader's test of its
  own state and its next receive, the goroutine of the reader dereferences the nil
  \<open>pubSubConn\<close>, and no function of it recovers: on an open connection whose peer has broken no
  rule an execution leads to a state that nothing leaves.
\<close>

theorem stop_can_end_the_program:
  "\<exists>r. rreaches fed_env own_topics fed_start r \<and> pumps r ! 0 = PumpCrashed PNilDeref \<and>
     c_state (con (base r)) = connStateEstablished \<and> reader_closed 0 (world_of r) \<and>
     {t. rreaches fed_env own_topics r t} = {r}"
proof -
  let ?evs = "fed_subscribes @ goroutine_listens @ [PumpGo 0 OtherReply, PumpResume 0] @
    client_stops @ [PumpResume 0]"
  have "map_option (\<lambda>r. (length (pumps r), pump_panic (pumps r ! 0),
      c_state (con (base r)), reader_closed 0 (world_of r))) (rfire_all fed_env own_topics ?evs fed_start) =
    Some (1, Some PNilDeref, connStateEstablished, True)"
    by code_simp
  then obtain r where r: "rfire_all fed_env own_topics ?evs fed_start = Some r" "length (pumps r) = 1"
    "pumps r ! 0 = PumpCrashed PNilDeref" "c_state (con (base r)) = connStateEstablished"
    "reader_closed 0 (world_of r)"
    by (auto simp: pump_panic_iff)
  from r(2,3) have "\<not> ralive r" by (cases "pumps r") (simp_all add: ralive_def)
  from r rdead_is_final [OF this, of fed_env own_topics] rfire_all_reaches [OF r(1) rreaches_refl]
  show ?thesis by blast
qed

end
