(* ===== verification/Outbox.thy ===== *)
theory Outbox
  imports ConnectionRelations SystemProperties
begin

text \<open>
  What a client is promised of the messages that are queued for it, as a small machine, and the
  proof that a connection, with all its goroutines, implements it: every step of the system is
  some steps of the machine.
\<close>

subsection \<open>The promise\<close>

text \<open>
  Messages that were accepted, those of them not yet written, what was given to the websocket
  to be written, and whether the box is sealed.  A sealed box takes no message; once it is also
  empty, nulls may be written.
\<close>

record outbox =
  accepted :: "msgptr list"
  pending :: "msgptr list"
  written :: "json list"
  sealed :: bool
  capacity :: nat

definition frames :: "msgptr \<Rightarrow> json list" where
  "frames m = (if m = operationMessageEOF then [] else [encode_msgptr m])"

inductive outbox_step :: "outbox \<Rightarrow> outbox \<Rightarrow> bool" where
  accept: "\<not> sealed b \<Longrightarrow> length (pending b) < capacity b \<Longrightarrow>
    outbox_step b (b\<lparr>accepted := accepted b @ [m], pending := pending b @ [m]\<rparr>)"
| deliver: "pending b = m # ms \<Longrightarrow>
    outbox_step b (b\<lparr>pending := ms, written := written b @ frames m\<rparr>)"
| seal: "outbox_step b (b\<lparr>sealed := True\<rparr>)"
| null: "sealed b \<Longrightarrow> pending b = [] \<Longrightarrow> outbox_step b (b\<lparr>written := written b @ [JNull]\<rparr>)"

text \<open>
  What the machine keeps: the messages written are the first ones accepted, in order and each
  once; nulls follow only when a sealed box is empty.
\<close>

definition outbox_ok :: "outbox \<Rightarrow> bool" where
  "outbox_ok b \<longleftrightarrow> length (pending b) \<le> capacity b \<and> (\<exists>done k. accepted b = done @ pending b \<and>
     written b = concat (map frames done) @ replicate k JNull \<and>
     (k > 0 \<longrightarrow> sealed b \<and> pending b = []))"

lemma outbox_step_ok: "outbox_step b b' \<Longrightarrow> outbox_ok b \<Longrightarrow> outbox_ok b'"
proof (induction rule: outbox_step.induct)
  case (deliver b m ms)
  then obtain "done" k where "accepted b = done @ pending b"
    "written b = concat (map frames done) @ replicate k JNull" "k = 0"
    by (auto simp: outbox_ok_def)
  with deliver show ?case
    by (auto simp: outbox_ok_def intro!: exI [of _ "done @ [m]"] exI [of _ 0])
next
  case (null b)
  then obtain k where "written b = concat (map frames (accepted b)) @ replicate k JNull"
    by (auto simp: outbox_ok_def)
  with null show ?case
    by (auto simp: outbox_ok_def replicate_append_same simp flip: replicate_Suc intro!: exI [of _ "Suc k"])
qed (auto simp: outbox_ok_def)

lemma outbox_steps_ok: "outbox_step\<^sup>*\<^sup>* b b' \<Longrightarrow> outbox_ok b \<Longrightarrow> outbox_ok b'"
  by (induction rule: rtranclp.induct) (auto intro: outbox_step_ok)

lemma outbox_sealed: "outbox_step\<^sup>*\<^sup>* b b' \<Longrightarrow> sealed b \<Longrightarrow> sealed b' \<and> accepted b' = accepted b"
  by (induction rule: rtranclp.induct) (auto elim: outbox_step.cases)

subsection \<open>The connection as such a machine\<close>

text \<open>
  \<open>sent\<close> is what was given to \<open>WriteJSON\<close>, as the outside state records it; nothing else
  writes messages.
\<close>

definition outbox_of :: "('w \<Rightarrow> json list) \<Rightarrow> 'w conn \<Rightarrow> outbox" where
  "outbox_of sent c = \<lparr>accepted = chan_history (c_outgoing c), pending = chan_buf (c_outgoing c),
     written = sent (c_world c), sealed = chan_closed (c_outgoing c), capacity = chan_cap (c_outgoing c)\<rparr>"

definition records_writes :: "('w \<Rightarrow> json list) \<Rightarrow> 'w env \<Rightarrow> bool" where
  "records_writes sent E \<longleftrightarrow> calls_ok (\<lambda>w w'. sent w' = sent w) E \<and>
     (\<forall>j w. sent (snd (ws_WriteJSON E j w)) = sent w @ [j])"

locale recorded_writes =
  fixes sent :: "'w \<Rightarrow> json list" and E :: "'w env"
  assumes records: "records_writes sent E"
begin

abbreviation unsent :: "'w \<Rightarrow> 'w \<Rightarrow> bool" where
  "unsent w w' \<equiv> sent w' = sent w"

definition posts :: "'w conn \<Rightarrow> 'w conn \<Rightarrow> bool" where
  "posts s t \<longleftrightarrow> c_config t = c_config s \<and>
     (WriteTimeout (c_config s) \<noteq> None \<longrightarrow> outbox_step\<^sup>*\<^sup>* (outbox_of sent s) (outbox_of sent t))"

lemma posts_same: "outbox_of sent t = outbox_of sent s \<Longrightarrow> c_config t = c_config s \<Longrightarrow> posts s t"
  by (simp add: posts_def)

lemma posts_step:
  "outbox_step (outbox_of sent s) (outbox_of sent t) \<Longrightarrow> c_config t = c_config s \<Longrightarrow> posts s t"
  by (simp add: posts_def r_into_rtranclp)

lemma posts_trans: "transp posts"
  by (rule transpI) (auto simp: posts_def intro: rtranclp_trans)

lemma prim_posts: "prim unsent s t \<Longrightarrow> posts s t"
proof (induction rule: prim.induct)
  case (prim_out s m)
  then have "outbox_step (outbox_of sent s) ((outbox_of sent s)\<lparr>
      accepted := accepted (outbox_of sent s) @ [m], pending := pending (outbox_of sent s) @ [m]\<rparr>)"
    by (intro accept) (auto simp: outbox_of_def can_send_def)
  with prim_out show ?case by (intro posts_step) (auto simp: outbox_of_def)
next
  case (prim_close_out s)
  have "outbox_step (outbox_of sent s) ((outbox_of sent s)\<lparr>sealed := True\<rparr>)" by (rule seal)
  then show ?case by (intro posts_step) (auto simp: outbox_of_def)
qed (auto intro!: posts_same simp: outbox_of_def)

sublocale reader_guarantee unsent E step_ok posts "\<lambda>_. True"
  using records posts_trans prim_posts step_ok_shutdown
  by unfold_locales (auto simp: records_writes_def reflp_def transp_def intro: posts_same
      simp: outbox_of_def)

text \<open>A turn that takes a message writes it before any other goroutine runs.\<close>

lemma written_posts:
  assumes "can_recv (c_outgoing s)" and "chan_recv NilMsg (c_outgoing s) = (m, ch)"
    and "sent w = sent (c_world s) @ frames m"
  shows "posts s (s\<lparr>c_outgoing := ch, c_world := w\<rparr>)"
proof (cases "chan_buf (c_outgoing s)")
  case Nil
  then have "outbox_step (outbox_of sent s) ((outbox_of sent s)\<lparr>written := written (outbox_of sent s) @ [JNull]\<rparr>)"
    using assms(1) by (intro null) (auto simp: outbox_of_def can_recv_def)
  with Nil assms show ?thesis
    by (intro posts_step) (auto simp: outbox_of_def chan_recv_def frames_def encode_msgptr_def)
next
  case (Cons p ps)
  then have "outbox_step (outbox_of sent s)
      ((outbox_of sent s)\<lparr>pending := ps, written := written (outbox_of sent s) @ frames p\<rparr>)"
    by (intro deliver) (simp add: outbox_of_def)
  with Cons assms show ?thesis
    by (intro posts_step) (auto simp: outbox_of_def chan_recv_def chan_history_def)
qed

lemma sent_calls:
  "sent (snd (ws_SetWriteDeadline E d w)) = sent w" "sent (snd (ws_WriteMessage E f w)) = sent w"
  "sent (snd (ws_WriteJSON E j w)) = sent w @ [j]"
  using records by (simp_all add: records_writes_def calls_ok_def)

lemma safe_write:
  assumes "can_recv (c_outgoing s)"
  shows "safe s (select_body E SelOutgoing s)"
proof -
  obtain m ch where m: "chan_recv NilMsg (c_outgoing s) = (m, ch)" by (meson surj_pair)
  show ?thesis
  proof (cases "WriteTimeout (c_config s)")
    case None
    with m show ?thesis
      by (simp add: safe_def select_body_def processOutgoingMessage_def posts_def)
  next
    case (Some d)
    then show ?thesis
      using m sent_calls
      by (auto simp: safe_def select_body_def processOutgoingMessage_def extcall_def frames_def
          split_beta intro!: written_posts [OF assms m])
  qed
qed

sublocale connection_relation unsent E posts
  by unfold_locales (auto intro!: posts_same safe_write simp: outbox_of_def addSubscription_def)

lemma is_connection_relation: "connection_relation unsent E posts"
  ..

lemma execution_posts:
  "reachable E s \<Longrightarrow> reaches E s t \<Longrightarrow> posts (con s) (con t)"
  "reaches E (start_sys (snd (NewConn schema config n w))) t \<Longrightarrow> posts (snd (NewConn schema config n w)) (con t)"
  using relation_reaches [OF _ reachable_ok] relation_reachable
    relation_reaches [OF _ sys_ok_start threads.threads_ok_start] by (fastforce simp: start_sys_def)+

end

subsection \<open>Recording what is written\<close>

text \<open>
  Any environment becomes one that records: the log stands beside the outside state, and every
  call but \<open>WriteJSON\<close> leaves it alone.
\<close>

definition beside :: "('w \<Rightarrow> 'r \<times> 'w) \<Rightarrow> 'w \<times> json list \<Rightarrow> 'r \<times> 'w \<times> json list" where
  "beside f x = (case f (fst x) of (r, w) \<Rightarrow> (r, w, snd x))"

definition beside_method :: "('arg, 'r, 'w) go_method option \<Rightarrow> ('arg, 'r, 'w \<times> json list) go_method option" where
  "beside_method mo = map_option (\<lambda>m arg. beside (m arg)) mo"

definition recorded_methods :: "('sub, 'w) methods \<Rightarrow> ('sub, 'w \<times> json list) methods" where
  "recorded_methods M = \<lparr>HandlePanic = beside_method (HandlePanic M),
     HandleConnectionInit = beside_method (HandleConnectionInit M),
     HandleConnectionStart = beside_method (HandleConnectionStart M),
     HandleConnectionStop = beside_method (HandleConnectionStop M),
     HandleConnectionTerminate = beside_method (HandleConnectionTerminate M),
     HandleSubscriptionStart = beside_method (HandleSubscriptionStart M),
     HandleSubscriptionStop = beside_method (HandleSubscriptionStop M),
     HandleWebsocketPong = beside_method (HandleWebsocketPong M),
     HandleWebsocketPing = beside_method (HandleWebsocketPing M),
     HandleWebsocketClose = beside_method (HandleWebsocketClose M)\<rparr>"

definition recorded :: "'w env \<Rightarrow> ('w \<times> json list) env" where
  "recorded E = \<lparr>ws_WriteJSON = (\<lambda>j x. case ws_WriteJSON E j (fst x) of (r, w) \<Rightarrow> (r, w, snd x @ [j])),
     ws_WriteMessage = (\<lambda>f. beside (ws_WriteMessage E f)),
     ws_WriteControl = (\<lambda>f d. beside (ws_WriteControl E f d)), ws_Close = beside (ws_Close E),
     ws_SetReadDeadline = (\<lambda>d. beside (ws_SetReadDeadline E d)),
     ws_SetWriteDeadline = (\<lambda>d. beside (ws_SetWriteDeadline E d)),
     ws_SetReadLimit = (\<lambda>l. beside (ws_SetReadLimit E l)), gq_Parse = gq_Parse E,
     gq_IsValid = gq_IsValid E, other_errors = other_errors E,
     impls = (\<lambda>n. recorded_methods (impls E n))\<rparr>"

lemma snd_beside [simp]: "snd (snd (beside f x)) = snd x"
  by (simp add: beside_def split_beta)

lemma method_ok_beside: "method_ok (\<lambda>w w'. snd w' = snd w) (beside_method mo)"
  by (auto simp: method_ok_def beside_method_def)

lemma recorded_records: "records_writes snd (recorded E)"
  by (simp add: records_writes_def calls_ok_def recorded_def methods_ok_def recorded_methods_def
      method_ok_beside split_beta)

interpretation log: recorded_writes snd "recorded E" for E
  by unfold_locales (rule recorded_records)

subsection \<open>Properties\<close>

text \<open>
  C5: a connection implements the outbox.  In every execution, however the goroutines
  interleave, whatever the peer and the users do, and for every environment that records what
  is written, what happens from one state to another is a sequence of steps of the machine: a
  message is accepted while the queue is open and has room, the oldest one is written, the
  queue is sealed, or nulls are written once it is sealed and empty.
\<close>

theorem connection_implements_the_outbox:
  assumes "records_writes sent E" and "reachable E s" and "reaches E s t"
    and "WriteTimeout (c_config (con s)) \<noteq> None"
  shows "outbox_step\<^sup>*\<^sup>* (outbox_of sent (con s)) (outbox_of sent (con t))"
  using recorded_writes.execution_posts(1) [OF recorded_writes.intro, OF assms(1-3)] assms(4)
  by (simp add: recorded_writes.posts_def [OF recorded_writes.intro, OF assms(1)])

text \<open>
  The same connection as in the other examples, with its writes recorded: the acknowledgement
  of the handshake is written.
\<close>

definition logged :: "(string list \<times> json list) sys" where
  "logged = start_sys (snd (NewConn (Some 0) demo_config 0 ([], [])))"

definition ack_written :: "event list" where
  "ack_written = one_subscription @ [ProcGo SelOutgoing, ProcResume]"

lemma ack_written_run:
  "map_option (\<lambda>s. (snd (c_world (con s)), chan_buf (c_outgoing (con s)), WriteTimeout (c_config (con s)))) 
     (fire_all (recorded demo) ack_written logged) =
   Some ([JObj [(''type'', JStr ''connection_ack''), (''payload'', JNull)]], [], Some 15000000000)"
  by code_simp

text \<open>
  C6: what the client's websocket was given is the queue: the messages taken from the queue,
  written in order and each once, and after them only nulls, and these only when the queue was
  closed and is empty.
\<close>

theorem the_wire_shows_the_queue:
  assumes "records_writes sent E" and "sent w = []" and "WriteTimeout config \<noteq> None"
    and "reaches E (start_sys (snd (NewConn schema config n w))) s"
  shows "\<exists>k. sent (c_world (con s)) =
      concat (map frames (chan_taken (c_outgoing (con s)))) @ replicate k JNull \<and>
    (k > 0 \<longrightarrow> chan_closed (c_outgoing (con s)) \<and> chan_buf (c_outgoing (con s)) = [])"
proof -
  let ?c = "snd (NewConn schema config n w)"
  have "outbox_ok (outbox_of sent ?c)"
    using assms(2) by (simp add: outbox_ok_def outbox_of_def NewConn_def make_chan_def chan_history_def)
  moreover have "recorded_writes.posts sent ?c (con s)"
    by (rule recorded_writes.execution_posts(2) [OF recorded_writes.intro, OF assms(1,4)])
  ultimately have "outbox_ok (outbox_of sent (con s))"
    using outbox_steps_ok assms(3)
    by (auto simp: recorded_writes.posts_def [OF recorded_writes.intro, OF assms(1)] NewConn_def)
  then show ?thesis by (auto simp: outbox_ok_def outbox_of_def chan_history_def)
qed

lemma ack_written_state:
  obtains s where "fire_all (recorded demo) ack_written logged = Some s"
    "snd (c_world (con s)) = [JObj [(''type'', JStr ''connection_ack''), (''payload'', JNull)]]"
    "chan_buf (c_outgoing (con s)) = []" "reaches (recorded demo) logged s"
proof -
  obtain s where "fire_all (recorded demo) ack_written logged = Some s"
    "snd (c_world (con s)) = [JObj [(''type'', JStr ''connection_ack''), (''payload'', JNull)]]"
    "chan_buf (c_outgoing (con s)) = []"
    using ack_written_run by auto
  with fire_all_reaches [OF this(1) reaches_refl] that show thesis by blast
qed

lemma reachable_logged: "reachable (recorded E) logged"
  unfolding reachable_def logged_def by (blast intro: reaches_refl)

lemma logged_timeout: "WriteTimeout (c_config (con logged)) \<noteq> None" "WriteTimeout demo_config \<noteq> None"
  by (simp_all add: logged_def start_sys_def NewConn_def demo_config_def)

theorem connection_implements_the_outbox_witness:
  "\<exists>s :: (string list \<times> json list) sys. written (outbox_of snd (con s)) =
       [JObj [(''type'', JStr ''connection_ack''), (''payload'', JNull)]] \<and>
     outbox_step\<^sup>*\<^sup>* (outbox_of snd (con logged)) (outbox_of snd (con s))"
proof -
  obtain s where s: "snd (c_world (con s)) = [JObj [(''type'', JStr ''connection_ack''), (''payload'', JNull)]]"
    "reaches (recorded demo) logged s"
    using ack_written_state by metis
  from connection_implements_the_outbox [OF recorded_records reachable_logged s(2) logged_timeout(1)] s(1)
  show ?thesis by (intro exI [of _ s]) (simp add: outbox_of_def)
qed

theorem the_wire_shows_the_queue_witness:
  "\<exists>s k. reaches (recorded demo) logged s \<and> chan_taken (c_outgoing (con s)) \<noteq> [] \<and>
     snd (c_world (con s)) = concat (map frames (chan_taken (c_outgoing (con s)))) @ replicate k JNull"
proof -
  obtain s where s: "snd (c_world (con s)) = [JObj [(''type'', JStr ''connection_ack''), (''payload'', JNull)]]"
    "reaches (recorded demo) logged s"
    using ack_written_state by metis
  have "snd ([] :: string list, [] :: json list) = []" by simp
  from the_wire_shows_the_queue [OF recorded_records this logged_timeout(2) s(2) [unfolded logged_def]]
  obtain k where "snd (c_world (con s)) = concat (map frames (chan_taken (c_outgoing (con s)))) @ replicate k JNull"
    by blast
  moreover have "chan_taken (c_outgoing (con s)) \<noteq> []"
    using calculation s(1) by (cases k) auto
  ultimately show ?thesis using s(2) by blast
qed

text \<open>One message is written in two steps of the processing goroutine.\<close>

lemma write_one:
  assumes "records_writes sent E" and "alive s" and "pr s = At Looping None"
    and "WriteTimeout (c_config (con s)) = Some d" and "chan_buf (c_outgoing (con s)) = m # ms"
  obtains w where "sent w = sent (c_world (con s)) @ frames m"
    "reaches E s (s\<lparr>con := (con s)\<lparr>c_outgoing := snd (chan_recv NilMsg (c_outgoing (con s))), c_world := w\<rparr>\<rparr>)"
proof -
  have sent: "sent (snd (ws_SetWriteDeadline E d w)) = sent w" "sent (snd (ws_WriteMessage E f w)) = sent w"
    "sent (snd (ws_WriteJSON E j w)) = sent w @ [j]" for w f j
    using assms(1) by (simp_all add: records_writes_def calls_ok_def)
  define w where "w = (let w = snd (ws_SetWriteDeadline E d (c_world (con s))) in
    if m = operationMessageEOF then snd (ws_WriteMessage E CloseMessage w) else snd (ws_WriteJSON E (encode_msgptr m) w))"
  have "fire_all E [ProcGo SelOutgoing, ProcResume] s =
      Some (s\<lparr>con := (con s)\<lparr>c_outgoing := snd (chan_recv NilMsg (c_outgoing (con s))), c_world := w\<rparr>\<rparr>)"
    using assms(2-5)
    by (cases s) (simp add: fire_def alive_def processor_code_def processMessages_body_def wait_for_def
        select_body_def processOutgoingMessage_def extcall_def can_recv_def chan_recv_Cons w_def Let_def
        put_proc_def split_beta)
  from that [OF _ fire_all_reaches [OF this reaches_refl]] show thesis
    by (simp add: w_def frames_def sent Let_def split: if_splits)
qed

lemma drain_queue:
  assumes "records_writes sent E" and "alive s" and "pr s = At Looping None"
    and "WriteTimeout (c_config (con s)) \<noteq> None"
  shows "\<exists>t. reaches E s t \<and> pr t = At Looping None \<and> chan_buf (c_outgoing (con t)) = [] \<and>
    chan_taken (c_outgoing (con t)) = chan_history (c_outgoing (con s)) \<and>
    sent (c_world (con t)) = sent (c_world (con s)) @ concat (map frames (chan_buf (c_outgoing (con s))))"
  using assms(2-4)
proof (induction "chan_buf (c_outgoing (con s))" arbitrary: s)
  case Nil
  then show ?case by (intro exI [of _ s]) (auto simp: chan_history_def intro: reaches_refl)
next
  case (Cons m ms)
  obtain d where d: "WriteTimeout (c_config (con s)) = Some d" using Cons.prems(3) by blast
  obtain w where w: "sent w = sent (c_world (con s)) @ frames m"
    "reaches E s (s\<lparr>con := (con s)\<lparr>c_outgoing := snd (chan_recv NilMsg (c_outgoing (con s))), c_world := w\<rparr>\<rparr>)"
    using write_one [OF assms(1) Cons.prems(1,2) d Cons.hyps(2) [symmetric]] by blast
  let ?s = "s\<lparr>con := (con s)\<lparr>c_outgoing := snd (chan_recv NilMsg (c_outgoing (con s))), c_world := w\<rparr>\<rparr>"
  have "ms = chan_buf (c_outgoing (con ?s))" "alive ?s" "pr ?s = At Looping None"
    "WriteTimeout (c_config (con ?s)) \<noteq> None"
    using Cons.prems Cons.hyps(2) [symmetric] by (simp_all add: chan_recv_Cons alive_def)
  from Cons.hyps(1) [OF this] obtain t where t: "reaches E ?s t" "pr t = At Looping None"
    "chan_buf (c_outgoing (con t)) = []" "chan_taken (c_outgoing (con t)) = chan_history (c_outgoing (con s))"
    "sent (c_world (con t)) = sent w @ concat (map frames ms)"
    using Cons.hyps(2) [symmetric] by (auto simp: chan_recv_Cons chan_history_def)
  moreover have "reaches E s t" by (rule reaches_trans [OF t(1) w(2)])
  ultimately show ?case using w(1) Cons.hyps(2) [symmetric] by auto
qed

text \<open>
  C10: nothing that is queued is stuck in the queue: while \<open>processMessages\<close> is between two turns
  of its loop there is an execution that writes everything queued, in order, and leads back
  to its loop; whatever was ever accepted has then been taken.
\<close>

theorem queued_messages_can_be_written:
  assumes "records_writes sent E" and "alive s" and "pr s = At Looping None"
    and "WriteTimeout (c_config (con s)) \<noteq> None"
  shows "\<exists>t. reaches E s t \<and> pr t = At Looping None \<and> chan_buf (c_outgoing (con t)) = [] \<and>
    chan_taken (c_outgoing (con t)) = chan_history (c_outgoing (con s)) \<and>
    sent (c_world (con t)) = sent (c_world (con s)) @ concat (map frames (chan_buf (c_outgoing (con s))))"
  using assms by (rule drain_queue)

theorem queued_messages_can_be_written_witness:
  "\<exists>s t. fire_all (recorded demo) one_subscription logged = Some s \<and> reaches (recorded demo) s t \<and>
     snd (c_world (con t)) = [JObj [(''type'', JStr ''connection_ack''), (''payload'', JNull)]]"
proof -
  have "map_option (\<lambda>s. (alive s, case pr s of At ph po \<Rightarrow> Some (ph, po) | _ \<Rightarrow> None, snd (c_world (con s)),
      concat (map frames (chan_buf (c_outgoing (con s)))), WriteTimeout (c_config (con s)) \<noteq> None)) 
     (fire_all (recorded demo) one_subscription logged) =
   Some (True, Some (Looping, None), [], [JObj [(''type'', JStr ''connection_ack''), (''payload'', JNull)]], True)"
    by code_simp
  then obtain s where s: "fire_all (recorded demo) one_subscription logged = Some s" "alive s"
    "pr s = At Looping None" "WriteTimeout (c_config (con s)) \<noteq> None" "snd (c_world (con s)) = []"
    "concat (map frames (chan_buf (c_outgoing (con s)))) =
      [JObj [(''type'', JStr ''connection_ack''), (''payload'', JNull)]]"
    by (auto simp: map_option_case split: option.splits goroutine.splits)
  from queued_messages_can_be_written [OF recorded_records s(2-4)] s(1,5,6) show ?thesis by auto
qed

text \<open>
  A null is really written when \<open>select\<close> prefers the closed queue to the closed \<open>shutdown\<close>.
\<close>

lemma null_after_close:
  "map_option (\<lambda>s. snd (c_world (con s))) (fire_all (recorded demo)
     (ack_written @ CallGo CallClose # replicate 3 (CallResume 0) @ [ProcGo SelOutgoing, ProcResume]) logged) =
   Some [JObj [(''type'', JStr ''connection_ack''), (''payload'', JNull)], JNull]"
  by code_simp

end
