(* ===== verification/SubscriptionTable.thy ===== *)
theory SubscriptionTable
  imports MessageProperties SystemProperties
begin

text \<open>
  The table of subscriptions against a sequential reference: however the goroutines interleave,
  the table is what one gets by replaying, one after the other, the messages that were taken
  from the incoming queue.
\<close>

subsection \<open>The reference\<close>

text \<open>The subscription a message asks for, if it is a \<open>start\<close> that passes every check.\<close>

definition requested :: "'w env \<Rightarrow> 'w conn \<Rightarrow> msgptr \<Rightarrow> Subscription option" where
  "requested E c p = (case p of
       Msg m \<Rightarrow> if msg_Type m = gqlTypeStart then (case decode_GQLObject (msg_Payload m) of
             Inl err \<Rightarrow> None
           | Inr payload \<Rightarrow> accepted_subscription E \<lparr>start_ID = msg_ID m, start_Payload = payload\<rparr> c)
         else None
     | _ \<Rightarrow> None)"

definition replay :: "'w env \<Rightarrow> 'w conn \<Rightarrow> msgptr list \<Rightarrow> string \<rightharpoonup> Subscription" where
  "replay E c ps = fold (\<lambda>p T. case requested E c p of None \<Rightarrow> T | Some s \<Rightarrow> T(sub_ID s \<mapsto> s)) ps Map.empty"

lemma replay_snoc: "replay E c (ps @ [p]) = (case requested E c p of
    None \<Rightarrow> replay E c ps | Some s \<Rightarrow> (replay E c ps)(sub_ID s \<mapsto> s))"
  by (simp add: replay_def split: option.split)

text \<open>Of the connection, the reference looks only at what never changes.\<close>

lemma requested_same:
  assumes "c_Schema d = c_Schema c" and "c_id d = c_id c"
  shows "requested E d = requested E c" and "replay E d = replay E c"
proof -
  have new: "new_subscription start d = new_subscription start c" for start
    using assms by (simp add: new_subscription_def)
  have "accepted_subscription E start d = accepted_subscription E start c" for start
    unfolding accepted_subscription_def new assms(1) ..
  then show "requested E d = requested E c"
    by (auto simp: requested_def split: msgptr.split sum.split)
  then show "replay E d = replay E c" by (intro ext) (simp add: replay_def)
qed

subsection \<open>The table between and during messages\<close>

abbreviation taken_in :: "'w conn \<Rightarrow> msgptr list" where
  "taken_in c \<equiv> chan_taken (c_incoming c)"

definition settled :: "'w env \<Rightarrow> 'w conn \<Rightarrow> bool" where
  "settled E c \<longleftrightarrow> c_Subscriptions c = replay E c (taken_in c)"

definition busy :: "'w env \<Rightarrow> msgptr \<Rightarrow> 'w conn \<Rightarrow> bool" where
  "busy E p c \<longleftrightarrow> (\<exists>ps. taken_in c = ps @ [p] \<and> c_Subscriptions c = replay E c ps)"

definition replayed :: "'w env \<Rightarrow> 'w conn \<Rightarrow> bool" where
  "replayed E c \<longleftrightarrow> settled E c \<or> (\<exists>p. busy E p c)"

lemma settled_when_done: "busy E p c \<Longrightarrow> requested E c p = None \<Longrightarrow> settled E c"
  by (auto simp: busy_def settled_def replay_snoc)

definition same_table :: "'w conn \<Rightarrow> 'w conn \<Rightarrow> bool" where
  "same_table c d \<longleftrightarrow> c_Subscriptions d = c_Subscriptions c \<and> taken_in d = taken_in c \<and>
     c_Schema d = c_Schema c \<and> c_id d = c_id c"

lemma same_table_keeps:
  assumes "same_table c d"
  shows "settled E d = settled E c" and "busy E p d = busy E p c" and "replayed E d = replayed E c"
    and "requested E d = requested E c"
  using assms requested_same [of d c E]
  by (auto simp: same_table_def settled_def busy_def replayed_def)

lemma env_step_same: "env_step c d \<Longrightarrow> same_table c d"
  by (simp add: env_step_def step_ok_def same_table_def)

lemma prim_same: "prim V c d \<Longrightarrow> same_table c d"
  by (rule env_step_same [OF prim_env_step])

definition table_kept :: "'w env \<Rightarrow> 'w conn \<Rightarrow> 'w conn \<Rightarrow> bool" where
  "table_kept E c d \<longleftrightarrow> step_ok c d \<and> (replayed E c \<longrightarrow> replayed E d)"

lemma table_kept_trans: "transp (table_kept E)"
  by (rule transpI) (auto simp: table_kept_def intro: step_ok_trans)

lemma table_kept_same: "step_ok c d \<Longrightarrow> same_table c d \<Longrightarrow> table_kept E c d"
  by (simp add: table_kept_def same_table_keeps)

lemma prim_table: "prim V c d \<Longrightarrow> table_kept E c d"
  using prim_env_step [of V c d] by (auto intro: table_kept_same prim_same simp: env_step_def)

lemma table_kept_refl [simp]: "table_kept E c c"
  by (simp add: table_kept_def)

interpretation settled: conn_guarantee "\<lambda>_ _. True" E env_step "table_kept E" "settled E" for E
  by unfold_locales
    (auto intro: any_world calls_ok_True table_kept_trans prim_table env_step_simps
      simp: same_table_keeps(1) [OF prim_same] same_table_keeps(1) [OF env_step_same])

interpretation busy: conn_guarantee "\<lambda>_ _. True" E env_step "table_kept E" "busy E p" for E p
  by unfold_locales
    (auto intro: any_world calls_ok_True table_kept_trans prim_table env_step_simps
      simp: same_table_keeps(2) [OF prim_same] same_table_keeps(2) [OF env_step_same])

interpretation ending: conn_guarantee "\<lambda>_ _. True" E env_step "table_kept E" "\<lambda>_. True" for E
  by unfold_locales
    (auto intro: any_world calls_ok_True table_kept_trans prim_table env_step_simps)

subsection \<open>Processing a message\<close>

lemma state_same: "table_kept E c (c\<lparr>c_state := v\<rparr>)" "busy E p (c\<lparr>c_state := v\<rparr>) = busy E p c"
proof -
  have s: "same_table c (c\<lparr>c_state := v\<rparr>)" by (simp add: same_table_def)
  then show "busy E p (c\<lparr>c_state := v\<rparr>) = busy E p c" by (rule same_table_keeps)
  show "table_kept E c (c\<lparr>c_state := v\<rparr>)"
    by (rule table_kept_same [OF _ s]) (simp add: step_ok_def close_order_def)
qed

text \<open>A message that asks for nothing is done when it is processed.\<close>

lemma busy_done:
  assumes "busy.safe E p c m" and "\<And>d. requested E d p = None"
  shows "settled.safe E c m"
  using assms(1) unfolding busy.safe_def settled.safe_def
  by (rule rg_weaken) (rule settled_when_done [OF _ assms(2)])

lemma init_busy: "busy E p c \<Longrightarrow> busy.safe E p c (process_init E m c)"
  by (rule busy.safe_init) (auto intro!: busy.safe_andthen busy.safe_setState busy.safe_sends
      simp: state_same)

text \<open>Registering what was asked for.\<close>

lemma add_table:
  assumes "busy E p c" and "requested E c p = Some s"
  shows "settled E (addSubscription s c)" and "table_kept E c (addSubscription s c)"
proof -
  have same: "replay E (addSubscription s c) = replay E c"
    by (rule requested_same) (simp_all add: addSubscription_def)
  have "settled E (addSubscription s c)"
    using assms unfolding settled_def same
    by (auto simp: busy_def replay_snoc addSubscription_def map_store_def)
  then show "settled E (addSubscription s c)" "table_kept E c (addSubscription s c)"
    by (auto simp: table_kept_def replayed_def step_ok_def addSubscription_def close_order_def)
qed

text \<open>
  A \<open>start\<close>: the loop over the start handlers, the checks, and the registration.  After it the
  table has what the message asks for.
\<close>

lemma gqlStart_table:
  assumes "busy E p c" and "\<And>d. requested E d p = accepted_subscription E start d"
  shows "settled.safe E c (gqlStart E start c)"
proof (cases "start_calls E start c")
  case (Pair po w)
  let ?c = "c\<lparr>c_world := w\<rparr>"
  have prim: "prim (\<lambda>_ _. True) c ?c" by (rule prim_world) simp
  have b: "busy E p ?c" using assms(1) same_table_keeps(2) [OF prim_same [OF prim]] by blast
  have r: "requested E ?c p = accepted_subscription E start c"
    using assms(2) same_table_keeps(4) [OF prim_same [OF prim]] by metis
  have "settled.safe E ?c (case po of Some q \<Rightarrow> Panic q ?c | None \<Rightarrow>
      (case accepted_subscription E start c of
         None \<Rightarrow> Ret () ?c
       | Some s \<Rightarrow> andthen (each_handler (calling HandleSubscriptionStart s E)
           (do_reaction until_propagation_stopped :: _ \<Rightarrow> _ \<Rightarrow> (panic, unit ctl, 'a conn) prog)
           (c_Handlers c) (addSubscription s ?c)) (\<lambda>_ c. Ret () c)))"
  proof (cases "accepted_subscription E start c")
    case None
    then show ?thesis
      using settled_when_done [OF b] r
      by (auto intro: settled.safe_Ret settled.safe_Panic split: option.split)
  next
    case (Some s)
    note a = add_table [OF b, unfolded r, OF Some]
    have "settled.safe E (addSubscription s ?c) (andthen (each_handler (calling HandleSubscriptionStart s E)
        (do_reaction until_propagation_stopped :: _ \<Rightarrow> _ \<Rightarrow> (panic, unit ctl, 'a conn) prog)
        (c_Handlers c) (addSubscription s ?c)) (\<lambda>_ c. Ret () c))"
      by (intro settled.safe_andthen settled.safe_loop settled.sel_ok_all settled.safe_Ret a(1))
    then show ?thesis
      using Some rg_trans [OF table_kept_trans a(2)]
      by (auto simp: settled.safe_def split: option.split)
  qed
  then show ?thesis
    using Pair rg_trans [OF table_kept_trans prim_table [OF prim]] prim_table [OF prim, of E]
    by (cases po) (auto simp: gqlStart_cases settled.safe_def)
qed

lemma start_table:
  assumes "busy E (Msg m) c" and "msg_Type m = gqlTypeStart"
  shows "settled.safe E c (process_start E m c)"
proof -
  have "settled.safe E d (if st \<noteq> connStateEstablished then Panic (PErr ErrConnectionNotFullyEstablished) d
      else case decode_GQLObject (msg_Payload m) of
          Inl err \<Rightarrow> andthen (sendOperationErrors E (msg_ID m) [err] d) (\<lambda>_ c. Ret () c)
        | Inr payload \<Rightarrow> gqlStart E \<lparr>start_ID = msg_ID m, start_Payload = payload\<rparr> d)"
    if b: "busy E (Msg m) d" for st d
  proof (cases "decode_GQLObject (msg_Payload m)")
    case (Inl err)
    have "busy.safe E (Msg m) d (andthen (sendOperationErrors E (msg_ID m) [err] d) (\<lambda>_ c. Ret () c))"
      by (intro busy.safe_andthen busy.safe_sendOperationErrors busy.safe_Ret b)
    from busy_done [OF this] Inl show ?thesis
      by (auto simp: requested_def intro: settled.safe_Panic)
  next
    case (Inr payload)
    have "settled.safe E d (gqlStart E \<lparr>start_ID = msg_ID m, start_Payload = payload\<rparr> d)"
      by (rule gqlStart_table [OF b]) (simp add: requested_def assms(2) Inr)
    with Inr show ?thesis by (auto intro: settled.safe_Panic)
  qed
  then show ?thesis
    using busy.safe_getState [OF assms(1)]
    unfolding process_start_def settled.safe_def busy.safe_def
    by (rule rg_andthen [OF table_kept_trans, rotated]) auto
qed

lemma incoming_table:
  assumes "busy E p c"
  shows "settled.safe E c (processIncomeMessage E p c)"
proof (cases "deref_msg p")
  case None
  then show ?thesis by (simp add: processIncomeMessage_def settled.safe_Panic)
next
  case (Some m)
  show ?thesis
  proof (cases "msg_Type m = gqlTypeStart")
    case True
    with Some have "p = Msg m" by (cases p) (auto simp: zero_OperationMessage_def gql_type_defs)
    with True assms start_table [of E m c] show ?thesis
      by (simp add: processIncomeMessage_def gql_type_defs)
  next
    case False
    with Some have r: "requested E d p = None" for d
      by (cases p) (auto simp: requested_def)
    have "busy.safe E p c (processIncomeMessage E p c)"
      using Some False assms
      by (auto simp: processIncomeMessage_def intro!: init_busy busy.safe_process_terminate
          busy.safe_process_stop busy.safe_Ret)
    then show ?thesis by (rule busy_done) (rule r)
  qed
qed

subsection \<open>The table in the system\<close>

lemma take_busy:
  assumes "settled E c" and "chan_buf (c_incoming c) = p # ps"
  shows "busy E p (c\<lparr>c_incoming := snd (chan_recv NilMsg (c_incoming c))\<rparr>)" (is "busy E p ?d")
    and "table_kept E c (c\<lparr>c_incoming := snd (chan_recv NilMsg (c_incoming c))\<rparr>)"
proof -
  have "replay E ?d = replay E c" by (rule requested_same) simp_all
  with assms have "busy E p ?d"
    by (simp add: settled_def busy_def chan_recv_Cons)
  then show "busy E p ?d" "table_kept E c ?d"
    using recv_proc(1) [of c] by (auto simp: table_kept_def replayed_def proc_step_def)
qed

lemma select_table:
  assumes "settled E c" and "select_ready sel c"
  shows "settled.safe E c (select_body E sel c)"
proof (cases sel)
  case SelIncoming
  show ?thesis
  proof (cases "chan_buf (c_incoming c)")
    case Nil
    then show ?thesis
      by (simp add: SelIncoming select_body_def chan_recv_Nil processIncomeMessage_def settled.safe_Panic)
  next
    case (Cons p ps)
    let ?d = "c\<lparr>c_incoming := snd (chan_recv NilMsg (c_incoming c))\<rparr>"
    note b = take_busy [OF assms(1) Cons]
    have "settled.safe E ?d (if p = operationMessageEOF then Ret False ?d
        else andthen (processIncomeMessage E p ?d) (\<lambda>_ c. Ret True c))"
      using settled_when_done [OF b(1)]
      by (auto simp: requested_def intro!: settled.safe_Ret settled.safe_andthen incoming_table b(1))
    then have "settled.safe E c (if p = operationMessageEOF then Ret False ?d
        else andthen (processIncomeMessage E p ?d) (\<lambda>_ c. Ret True c))"
      unfolding settled.safe_def by (rule rg_trans [OF table_kept_trans b(2)])
    then show ?thesis
      by (simp only: SelIncoming select_body_def select_case.case Let_def chan_recv_Cons [OF Cons]
          prod.case snd_conv)
  qed
next
  case SelOutgoing
  have same: "same_table d (d\<lparr>c_outgoing := snd (chan_recv NilMsg (c_outgoing d))\<rparr>)" for d :: "'a conn"
    by (simp add: same_table_def)
  show ?thesis
    unfolding SelOutgoing
    by (rule settled.safe_outgoing)
      (use assms(1) recv_proc(2) in \<open>auto simp: same_table_keeps [OF same] proc_step_def
        intro: table_kept_same [OF _ same]\<close>)
qed (use assms in \<open>auto simp: select_body_def intro!: settled.safe_Ret settled.safe_send_ping\<close>)

lemma processor_table:
  assumes "ph \<noteq> Leaving \<longrightarrow> settled E c"
  shows "rg env_step (table_kept E) (\<lambda>b t. ph \<noteq> Leaving \<longrightarrow> settled E t) c (processor_code E ph po sel c)"
proof (cases "ph = Leaving")
  case True
  have "ending.safe E c (processor_code E Leaving po sel c)"
    by (auto simp: processor_code_def intro!: ending.safe_andthen ending.safe_exits ending.safe_Ret)
  with True show ?thesis by (simp add: ending.safe_def)
next
  case False
  with assms have "settled.safe E c (processor_code E ph po sel c)"
    by (cases ph) (auto simp: processor_code_def processMessages_body_def
        intro!: settled.safe_processMessages_start settled.safe_wait select_table)
  with False show ?thesis by (simp add: settled.safe_def)
qed

interpretation table: goroutine_contract E step_ok env_step env_step "table_kept E" "settled E" for E
  using transp_step_ok transp_env_step reader_code_ok api_code_ok
  by unfold_locales (auto simp: same_table_keeps(1) [OF env_step_same] intro: processor_table)

lemma replayed_step:
  assumes "sys_step E s ev t" and "sys_ok s" and "table.threads_ok E s" and "replayed E (con s)"
  shows "table.threads_ok E t \<and> replayed E (con t)"
proof -
  have "step_ok (con s) (con t)" "of_processor ev \<or> env_step (con s) (con t)"
    using sys_ok_step [OF assms(1,2)] sys_step_env [OF assms(1,2)]
    by (auto simp: proc_step_def)
  then show ?thesis
    using table.step_guarantee [OF assms(1,3)] assms(4)
    by (auto simp: table_kept_def same_table_keeps(3) [OF env_step_same] split: if_splits)
qed

lemma replayed_reaches:
  assumes "reaches E s t" and "sys_ok s" and "table.threads_ok E s" and "replayed E (con s)"
  shows "table.threads_ok E t \<and> replayed E (con t)"
  using assms
proof (induction rule: reaches.induct)
  case (reaches_step s t ev u)
  then show ?case using replayed_step sys_ok_reaches by blast
qed simp

lemma replayed_reachable:
  assumes "reachable E s"
  shows "table.threads_ok E s \<and> replayed E (con s)"
proof -
  obtain schema config n w where r: "reaches E (start_sys (snd (NewConn schema config n w))) s"
    using assms by (auto simp: reachable_def)
  have "settled E (snd (NewConn schema config n w))"
    by (simp add: settled_def replay_def NewConn_def make_chan_def)
  then show ?thesis
    by (intro replayed_reaches [OF r sys_ok_start])
      (simp_all add: table.threads_ok_start replayed_def, simp add: start_sys_def)
qed

subsection \<open>Properties\<close>

text \<open>
  C4: the concurrent connection registers subscriptions as the sequential reference does.  In
  every reachable state, however the goroutines interleave, whatever handlers, peer and users
  do, the table is the replay of the messages taken from the incoming queue, or of all but the
  last of them, which is then still being processed or has ended the processing; between two
  turns of the loop of \<open>processMessages\<close> it is the replay of all.
\<close>

theorem subscriptions_replay_the_messages:
  assumes "reachable E s"
  shows "c_Subscriptions (con s) \<in> {replay E (con s) (taken_in (con s)),
      replay E (con s) (butlast (taken_in (con s)))} \<and>
    (pr s = At Looping po \<longrightarrow> c_Subscriptions (con s) = replay E (con s) (taken_in (con s)))"
  using replayed_reachable [OF assms]
  by (auto simp: replayed_def settled_def busy_def table.threads_ok_def)

theorem subscriptions_replay_the_messages_witness:
  "\<exists>s. reachable demo s \<and> length (taken_in (con s)) = 2 \<and>
     c_Subscriptions (con s) = replay demo (con s) (taken_in (con s)) \<and>
     c_Subscriptions (con s) ''1'' \<noteq> None"
proof -
  have "map_option (\<lambda>s. (case pr s of At ph po \<Rightarrow> Some ph | _ \<Rightarrow> None, length (taken_in (con s)),
      c_Subscriptions (con s) ''1'' = None)) (fire_all demo one_subscription new_sys) = Some (Some Looping, 2, False)"
    by code_simp
  then obtain s po where s: "fire_all demo one_subscription new_sys = Some s" "pr s = At Looping po"
    "length (taken_in (con s)) = 2" "c_Subscriptions (con s) ''1'' \<noteq> None"
    by (auto simp: map_option_case split: option.splits goroutine.splits)
  from subscriptions_replay_the_messages [OF reachable_fire [OF s(1)]] reachable_fire [OF s(1)] s(2-4)
  show ?thesis by blast
qed

end
