(* ===== verification/RedisWire.thy ===== *)
theory RedisWire
  imports RedisSystem Outbox SubscriptionTable
begin

text \<open>
  From Redis to the websocket: the outbox of a connection while the goroutines of its Redis
  handler run beside its own, and the way of a message from a reader to the peer.
\<close>

subsection \<open>Executions of the composed system\<close>

lemma rreaches_trans: "rreaches E L s t \<Longrightarrow> rreaches E L r s \<Longrightarrow> rreaches E L r t"
  by (induction rule: rreaches.induct) (auto intro: rreaches_step)

text \<open>What the goroutines of the connection can do alone, they can do beside those of Redis.\<close>

lemma base_reaches:
  assumes "reaches E (base r) t" and "list_all (\<lambda>g. \<not> pump_crashed g) (pumps r)"
  shows "\<exists>q. rreaches E L r q \<and> base q = t \<and> list_all (\<lambda>g. \<not> pump_crashed g) (pumps q) \<and>
    prefix (pumps r) (pumps q)"
  using assms(1)
proof (induction "base r" t rule: reaches.induct)
  case reaches_refl
  then show ?case using assms(2) by (intro exI [of _ r]) (simp add: rreaches_refl)
next
  case (reaches_step t ev u)
  then obtain q where q: "rreaches E L r q" "base q = t" "list_all (\<lambda>g. \<not> pump_crashed g) (pumps q)"
    "prefix (pumps r) (pumps q)"
    by blast
  let ?q = "\<lparr>base = u, pumps = new_pumps (con u) (pumps q)\<rparr>"
  have f: "fire E ev t = Some u" using reaches_step(3) by (simp add: sys_step_iff_fire)
  then have "alive t" by (simp add: fire_def split: if_splits)
  with f q(2,3) have "rfire E L (Base ev) q = Some ?q" by (simp add: rfire_def ralive_def)
  from rreaches.rreaches_step [OF q(1) this] q(3,4) show ?case
    by (intro exI [of _ ?q]) (auto simp: new_pumps_def list_all_iff prefix_def)
qed

text \<open>A goroutine of Redis that does not have to wait for others can go on alone to its end.\<close>

lemma ralive_put_pump:
  "ralive r \<Longrightarrow> \<not> pump_crashed (fst x) \<Longrightarrow> ralive (put_pump r j x)"
  by (auto simp: ralive_def alive_def put_pump_def new_pumps_def list_all_iff
      dest!: subsetD [OF set_update_subset_insert])

lemma put_pump_facts:
  "j < length (pumps r) \<Longrightarrow> j < length (pumps (put_pump r j x))"
  "j < length (pumps r) \<Longrightarrow> pumps (put_pump r j x) ! j = fst x"
  "con (base (put_pump r j x)) = snd x" "pr (base (put_pump r j x)) = pr (base r)"
  by (simp_all add: put_pump_def new_pumps_def nth_append)

lemma pump_alone:
  assumes "run m = Done a d" and "ralive r" and "j < length (pumps r)"
  shows "\<exists>t. rreaches E L (put_pump r j (settle_pump p m)) t \<and> ralive t \<and> j < length (pumps t) \<and>
    con (base t) = d \<and> pumps t ! j = fst (settle_pump p (Ret a d)) \<and> pr (base t) = pr (base r)"
  using assms
proof (induction m arbitrary: r)
  case (Ret b s)
  have "\<not> pump_crashed (fst (settle_pump p (Ret b s)))" "snd (settle_pump p (Ret b s)) = s"
    by (cases b; simp)+
  with Ret show ?case
    by (intro exI [of _ "put_pump r j (settle_pump p (Ret b s))"])
      (simp add: ralive_put_pump put_pump_facts rreaches_refl)
next
  case (Wait g s k)
  let ?r = "put_pump r j (PumpWaits p g k, s)"
  have g: "g s" "run (k s) = Done a d" using Wait.prems(1) by (auto split: if_splits)
  have r: "ralive ?r" "j < length (pumps ?r)"
    using Wait.prems(2,3) by (simp_all add: ralive_put_pump put_pump_facts)
  have "rfire E L (PumpResume j) ?r = Some (put_pump ?r j (settle_pump p (k s)))"
    using r g(1) Wait.prems(3) by (simp add: rfire_def put_pump_facts)
  moreover obtain t where "rreaches E L (put_pump ?r j (settle_pump p (k s))) t" "ralive t" "j < length (pumps t)"
    "con (base t) = d" "pumps t ! j = fst (settle_pump p (Ret a d))" "pr (base t) = pr (base ?r)"
    using Wait.IH [OF _ g(2) r] by blast
  ultimately show ?case
    using rreaches_trans rreaches_step [OF rreaches_refl] by (fastforce simp: put_pump_facts)
qed simp

subsection \<open>The outbox beside the goroutines of Redis\<close>

text \<open>Redis, its library and the table of readers are not the websocket.\<close>

definition apart :: "('n redis_world \<Rightarrow> json list) \<Rightarrow> 'n redis_lib \<Rightarrow> bool" where
  "apart sent L \<longleftrightarrow> lib_ok (\<lambda>w w'. sent w' = sent w) L \<and> (\<forall>i f w. sent (change_reader i f w) = sent w)"

lemma posts_guarantee:
  assumes "records_writes sent E" and "apart sent L"
  shows "pump_relation (\<lambda>w w'. sent w' = sent w) E (recorded_writes.posts sent) (\<lambda>_. False) L"
  using assms(2) recorded_writes.is_connection_relation [OF recorded_writes.intro, OF assms(1)]
  by (intro pump_relation.intro pump_relation_axioms.intro) (simp_all add: apart_def)

text \<open>
  C7: the outbox, with the goroutines of Redis beside those of the connection.  Whatever is
  received from Redis and however all goroutines interleave, an execution from the start is a
  sequence of steps of the outbox, and the websocket was given the messages taken from the queue,
  each once and in order, and after them only nulls once the queue is closed and empty.
\<close>

theorem redis_feeds_the_outbox:
  assumes "env_ok table_step E" and "table_ok w" and "rw_pumps w = []"
    and "records_writes sent E" and "apart sent L" and "sent w = []"
    and "WriteTimeout config \<noteq> None" and "rreaches E L (start_rsys schema config n w) r"
  shows "outbox_step\<^sup>*\<^sup>* (outbox_of sent (snd (NewConn schema config n w))) (outbox_of sent (con (base r))) \<and>
    (\<exists>k. sent (world_of r) = concat (map frames (chan_taken (c_outgoing (con (base r))))) @ replicate k JNull \<and>
      (k > 0 \<longrightarrow> chan_closed (c_outgoing (con (base r))) \<and> chan_buf (c_outgoing (con (base r))) = []))"
proof -
  let ?c = "snd (NewConn schema config n w)" and ?s = "start_rsys schema config n w"
  note pg = posts_guarantee [OF assms(4,5)]
  have s: "con (base ?s) = ?c" "c_world ?c = w"
    by (simp_all add: start_rsys_def start_sys_def NewConn_def)
  have "recorded_writes.posts sent ?c (con (base r))"
    using composed_relation [OF assms(1) pg assms(8) rsys_ok_start]
      pump_relation.rworld_ok_start [OF pg assms(3)]
      pump_relation.rworld_ok_start [OF tables_guarantee [OF assms(1)] assms(3)] assms(2)
    unfolding s by (auto simp: s)
  then have steps: "outbox_step\<^sup>*\<^sup>* (outbox_of sent ?c) (outbox_of sent (con (base r)))"
    using assms(7) by (simp add: recorded_writes.posts_def [OF recorded_writes.intro, OF assms(4)] NewConn_def)
  have "outbox_ok (outbox_of sent ?c)"
    using assms(6) by (simp add: outbox_ok_def outbox_of_def NewConn_def make_chan_def chan_history_def)
  then have "outbox_ok (outbox_of sent (con (base r)))" using outbox_steps_ok steps by blast
  then show ?thesis using steps by (auto simp: outbox_ok_def outbox_of_def chan_history_def)
qed

text \<open>
  C20: from Redis to the peer.  While a goroutine of the Redis handler listens, the connection is
  open with room in its queue and \<open>processMessages\<close> is at its loop, then a message that arrives
  from Redis and can be executed can be written: an execution leads to a state in
  which the goroutine listens again and the websocket was given all that was queued before and
  then one frame of type \<open>data\<close> with the id of the subscription and the result.
\<close>

theorem redis_message_reaches_the_socket:
  assumes "ralive r" and "j < length (pumps r)" and "j < length (rw_pumps (world_of r))"
    and "pumps r ! j = PumpAt (PumpListen k)" and "listening (pump_reader r j) k (con (base r))"
    and "pr (base r) = At Looping None" and "c_Schema (con (base r)) \<noteq> None"
    and "\<not> chan_closed (c_outgoing (con (base r)))" and "has_room (c_outgoing (con (base r)))"
    and "WriteTimeout (c_config (con (base r))) \<noteq> None" and "records_writes sent E" and "apart sent L"
    and "r_subscription (reader_at (pump_reader r j) (world_of r)) = s"
    and "gq_Execute L s channel data (rw_net (world_of r)) = ((result, errs), n)"
    and "marshal_GQLDataObject (other_errors E)
      \<lparr>data_Data = result, data_Errors = ErrorsFromGraphQLErrors errs\<rparr> = Some payload"
  shows "\<exists>t. rreaches E L r t \<and> pumps t ! j = PumpAt (PumpListen k) \<and>
    sent (world_of t) = sent (world_of r) @ concat (map frames (chan_buf (c_outgoing (con (base r))))) @
      [encode_OperationMessage \<lparr>msg_ID = sub_ID s, msg_Type = ''data'', msg_Payload = Some payload\<rparr>]"
proof -
  let ?c = "con (base r)" and ?i = "pump_reader r j"
  let ?m = "\<lparr>msg_ID = sub_ID s, msg_Type = ''data'', msg_Payload = Some payload\<rparr>"
  let ?d = "?c\<lparr>c_world := (c_world ?c)\<lparr>rw_net := n\<rparr>, c_outgoing := chan_push (Msg ?m) (c_outgoing ?c)\<rparr>"
  let ?turn = "readLoop_turn E L ?i k (RedisMessage channel data) ?c"
  have "run ?turn = Done (Listening k) ?d"
    using redis_message_reaches_the_client [OF assms(5,7) _ assms(15,8,9)] assms(13,14) by simp
  from pump_alone [OF this assms(1,2), of E L "PumpListen k"]
  obtain q where q: "rreaches E L (put_pump r j (settle_pump (PumpListen k) ?turn)) q" "ralive q"
    "j < length (pumps q)" "con (base q) = ?d" "pumps q ! j = PumpAt (PumpListen k)" "pr (base q) = At Looping None"
    using assms(6) by auto
  have "rfire E L (PumpGo j (RedisMessage channel data)) r = Some (put_pump r j (settle_pump (PumpListen k) ?turn))"
    using assms(1-4) by (cases "rw_pumps (world_of r) ! j") (simp add: rfire_def pump_reader_def)
  then have rq: "rreaches E L r q" using rreaches_trans [OF q(1)] rreaches_step [OF rreaches_refl] by blast
  have "sent ((c_world ?c)\<lparr>rw_net := n\<rparr>) = sent (c_world ?c)"
    using assms(12) lib_okD(5) [of _ L "c_world ?c" s channel data] assms(14) by (fastforce simp: apart_def)
  moreover obtain t where t: "reaches E (base q) t" 
    "sent (c_world (con t)) = sent (c_world ?d) @ concat (map frames (chan_buf (c_outgoing ?d)))"
    using drain_queue [OF assms(11) _ q(6)] q(2,4) assms(10) by (auto simp: ralive_def)
  moreover obtain p where p: "rreaches E L q p" "base p = t" "prefix (pumps q) (pumps p)"
    using base_reaches [OF t(1)] q(2) by (auto simp: ralive_def)
  ultimately have "sent (world_of p) = sent (world_of r) @ concat (map frames (chan_buf (c_outgoing ?c))) @
      [encode_OperationMessage ?m]"
    by (simp add: frames_def encode_msgptr_def chan_push_def)
  moreover have "pumps p ! j = PumpAt (PumpListen k)"
    using p(3) q(3,5) by (auto simp: prefix_def nth_append)
  ultimately show ?thesis using rreaches_trans [OF p(1) rq] by blast
qed

text \<open>The table of subscriptions is the replay of the messages taken here, too.\<close>

lemma replay_beside_redis:
  assumes "rreaches E L (start_rsys schema config n w) r"
  shows "replayed E (con (base r)) \<and>
    (pr (base r) = At Looping po \<longrightarrow> c_Subscriptions (con (base r)) = replay E (con (base r)) (taken_in (con (base r))))"
proof -
  let ?I = "\<lambda>s. table.threads_ok E s \<and> replayed E (con s)"
  have "settled E (snd (NewConn schema config n w))"
    by (simp add: settled_def replay_def NewConn_def make_chan_def)
  then have start: "?I (base (start_rsys schema config n w))"
    by (simp add: start_rsys_def table.threads_ok_start replayed_def, simp add: start_sys_def)
  have step: "?I t" if "sys_step E s ev t" "sys_ok s" "?I s" for s ev t
    using replayed_step [OF that(1,2)] that(3) by blast
  have env: "?I (s\<lparr>con := c\<rparr>)" if "?I s" "env_step (con s) c" for s c
  proof -
    have "step_ok (con s) c" using that(2) by (simp add: env_step_def)
    with that show ?thesis
      using table.threads_ok_moved [of E s c] same_table_keeps(3) [OF env_step_same [OF that(2)]] by simp
  qed
  have "rsys_ok r \<and> ?I (base r)"
    by (rule composed_invariant [where I = ?I, OF assms rsys_ok_start start]) (erule (2) step, erule (1) env)
  then show ?thesis by (auto simp: table.threads_ok_def settled_def)
qed

subsection \<open>An example\<close>

text \<open>Redis keeps nothing, so its state is free for the log of the websocket.\<close>

definition wire_redis :: "json list redis_lib" where
  "wire_redis = \<lparr>schema_fields = (\<lambda>s. Returns (\<lambda>f. Some (topic_field [StringTopic f]))),
     gq_Execute = (\<lambda>s ch m n. ((Some (JStr m), []), n)), rl_Dial = (\<lambda>n. (Inr 7, n)),
     rl_Err = (\<lambda>k n. (None, n)), rl_Subscribe = (\<lambda>k ts n. (None, n)), rl_Close = (\<lambda>k n. (None, n))\<rparr>"

definition wire_env :: "json list redis_world env" where
  "wire_env = \<lparr>ws_WriteJSON = (\<lambda>j w. (None, w\<lparr>rw_net := rw_net w @ [j]\<rparr>)), ws_WriteMessage = (\<lambda>f w. (None, w)),
     ws_WriteControl = (\<lambda>f d w. (None, w)), ws_Close = (\<lambda>w. (None, w)),
     ws_SetReadDeadline = (\<lambda>d w. (None, w)), ws_SetWriteDeadline = (\<lambda>d w. (None, w)),
     ws_SetReadLimit = (\<lambda>l w. ((), w)), gq_Parse = (\<lambda>q. Inr example_document),
     gq_IsValid = (\<lambda>s d. True), other_errors = (\<lambda>e. None), impls = (\<lambda>n. redis_methods wire_redis)\<rparr>"

definition wire_world :: "json list redis_world" where
  "wire_world = \<lparr>rw_readers = [], rw_subscriptions = [], rw_pumps = [], rw_net = []\<rparr>"

definition wire_start :: "json list rsys" where
  "wire_start = start_rsys (Some 0) demo_config 0 wire_world"

lemma wire_lib: "lib_ok (\<lambda>w w'. rw_net w' = rw_net w) wire_redis"
  by (simp add: lib_ok_def wire_redis_def)

lemma wire_apart: "apart rw_net wire_redis"
  by (simp add: apart_def wire_lib)

lemma wire_close: "rw_net (reader_close wire_redis i w) = rw_net w"
  by (auto simp: reader_close_def wire_redis_def Let_def split: option.splits)

lemma wire_close_readers: "rw_net (close_readers wire_redis is w) = rw_net w"
  unfolding close_readers_def by (induction "is" arbitrary: w) (simp_all add: wire_close)

lemma wire_subscribes:
  "\<exists>s'. subscribe_fields (\<lambda>f. Some (topic_field [StringTopic f])) x fs s n = (Returns (Inr s'), n)"
  by (induction fs arbitrary: s) (simp_all add: topic_field_def)

lemma wire_subscription_start:
  "rw_net (snd (redis_HandleSubscriptionStart wire_redis x w)) = rw_net w"
proof -
  let ?f = "\<lambda>f. Some (topic_field [StringTopic f] :: json list subscription_field)"
  obtain s' where "subscribe_fields ?f x (sub_Fields x) NewSubscriber (rw_net w) = (Returns (Inr s'), rw_net w)"
    using wire_subscribes [of x "sub_Fields x" NewSubscriber "rw_net w"] by blast
  then show ?thesis
    by (simp add: redis_HandleSubscriptionStart_def wire_redis_def store_reader_def Let_def)
qed

lemma wire_methods: "methods_ok (\<lambda>w w'. rw_net w' = rw_net w) (redis_methods wire_redis)"
  using wire_subscription_start wire_close wire_close_readers
  by (auto simp: methods_ok_def method_ok_def redis_methods_def no_methods_def
      redis_HandleSubscriptionStop_def redis_HandleWebsocketClose_def split: option.splits)

lemma wire_records: "records_writes rw_net wire_env"
  by (simp add: records_writes_def calls_ok_def wire_env_def wire_methods)

lemma wire_env_ok: "env_ok table_step wire_env"
  using redis_methods_step(1) [of wire_redis]
  by (simp add: env_ok_def calls_ok_def wire_env_def step_refl) (simp add: table_step_def)

lemma wire_world_ok: "table_ok wire_world" "rw_pumps wire_world = []" "rw_net wire_world = []"
  by (simp_all add: wire_world_def table_ok_def readers_ok_def)

text \<open>The client of the examples above subscribes, the goroutine listens.\<close>

definition pump_place :: "'n pump \<Rightarrow> pump_at option" where
  "pump_place g = (case g of PumpAt p \<Rightarrow> Some p | _ \<Rightarrow> None)"

definition proc_place :: "'w goroutine \<Rightarrow> (phase \<times> panic option) option" where
  "proc_place g = (case g of At ph po \<Rightarrow> Some (ph, po) | _ \<Rightarrow> None)"

lemma places:
  "pump_place g = Some p \<longleftrightarrow> g = PumpAt p" "proc_place h = Some (ph, po) \<longleftrightarrow> h = At ph po"
  by (auto simp: pump_place_def proc_place_def split: pump.splits goroutine.splits)

lemma wire_run:
  "map_option (\<lambda>r. (ralive r, length (pumps r), map fst (rw_pumps (world_of r)), pump_place (pumps r ! 0),
      proc_place (pr (base r))))
     (rfire_all wire_env wire_redis (fed_subscribes @ goroutine_listens) wire_start) =
   Some (True, 1, [0], Some (PumpListen 7), Some (Looping, None))"
  "map_option (\<lambda>r. (length (rw_readers (world_of r)), r_state (reader_at 0 (world_of r)), r_pubSubConn (reader_at 0 (world_of r)),
      sub_ID (r_subscription (reader_at 0 (world_of r))), rw_net (world_of r), concat (map frames (chan_buf (c_outgoing (con (base r)))))))
     (rfire_all wire_env wire_redis (fed_subscribes @ goroutine_listens) wire_start) =
   Some (1, readerStateRunning, Some 7, ''1'', [], [JObj [(''type'', JStr ''connection_ack''), (''payload'', JNull)]])"
  "map_option (\<lambda>r. (c_Schema (con (base r)), chan_closed (c_outgoing (con (base r))),
      length (chan_buf (c_outgoing (con (base r)))), chan_cap (c_outgoing (con (base r))), WriteTimeout (c_config (con (base r)))))
     (rfire_all wire_env wire_redis (fed_subscribes @ goroutine_listens) wire_start) =
   Some (Some 0, False, 1, 10, Some 15000000000)"
  by code_simp+

theorem redis_message_reaches_the_socket_witness:
  "\<exists>t. rreaches wire_env wire_redis wire_start t \<and> rw_net (world_of t) =
     [JObj [(''type'', JStr ''connection_ack''), (''payload'', JNull)],
      JObj [(''id'', JStr ''1''), (''type'', JStr ''data''), (''payload'', JObj [(''data'', JStr ''hello'')])]]"
proof -
  obtain r where r: "rfire_all wire_env wire_redis (fed_subscribes @ goroutine_listens) wire_start = Some r"
    "ralive r" "length (pumps r) = 1" "map fst (rw_pumps (world_of r)) = [0]"
    "pumps r ! 0 = PumpAt (PumpListen 7)" "pr (base r) = At Looping None"
    using wire_run(1) by (auto simp: places)
  have f: "length (rw_readers (world_of r)) = 1" "r_state (reader_at 0 (world_of r)) = readerStateRunning"
    "r_pubSubConn (reader_at 0 (world_of r)) = Some 7" "sub_ID (r_subscription (reader_at 0 (world_of r))) = ''1''"
    "rw_net (world_of r) = []"
    "concat (map frames (chan_buf (c_outgoing (con (base r))))) = [JObj [(''type'', JStr ''connection_ack''), (''payload'', JNull)]]"
    "c_Schema (con (base r)) \<noteq> None" "\<not> chan_closed (c_outgoing (con (base r)))" "has_room (c_outgoing (con (base r)))"
    "WriteTimeout (c_config (con (base r))) \<noteq> None"
    using wire_run(2,3) r(1) by (simp_all add: has_room_def)
  have p: "0 < length (pumps r)" "0 < length (rw_pumps (world_of r))" "pump_reader r 0 = 0"
    using r(3,4) by (auto simp: pump_reader_def)
  have l: "listening (pump_reader r 0) 7 (con (base r))" using f(1-3) by (simp add: listening_def p(3))
  have e: "gq_Execute wire_redis (r_subscription (reader_at 0 (world_of r))) ''a'' ''hello'' (rw_net (world_of r)) =
      ((Some (JStr ''hello''), []), rw_net (world_of r))"
    by (simp add: wire_redis_def)
  have m: "marshal_GQLDataObject (other_errors wire_env) \<lparr>data_Data = Some (JStr ''hello''),
      data_Errors = ErrorsFromGraphQLErrors []\<rparr> = Some (JObj [(''data'', JStr ''hello'')])"
    by (simp add: marshal_GQLDataObject_def ErrorsFromGraphQLErrors_def)
  obtain t where "rreaches wire_env wire_redis r t" "rw_net (world_of t) = rw_net (world_of r) @
      concat (map frames (chan_buf (c_outgoing (con (base r))))) @
      [encode_OperationMessage \<lparr>msg_ID = ''1'', msg_Type = ''data'', msg_Payload = Some (JObj [(''data'', JStr ''hello'')])\<rparr>]"
    using redis_message_reaches_the_socket [OF r(2) p(1,2) r(5) l r(6) f(7-10) wire_records wire_apart _ e m]
      p(3) f(4) by auto
  then show ?thesis
    using rreaches_trans [OF _ rfire_all_reaches [OF r(1) rreaches_refl]] f(5,6)
    by (intro exI [of _ t]) (simp add: encode_OperationMessage_def)
qed

theorem redis_feeds_the_outbox_witness:
  "\<exists>r k. rreaches wire_env wire_redis wire_start r \<and> rw_net (world_of r) \<noteq> [] \<and>
     rw_net (world_of r) = concat (map frames (chan_taken (c_outgoing (con (base r))))) @ replicate k JNull"
proof -
  let ?evs = "fed_subscribes @ goroutine_listens @ map Base [ProcGo SelOutgoing, ProcResume]"
  have "map_option (\<lambda>r. rw_net (world_of r) = []) (rfire_all wire_env wire_redis ?evs wire_start) = Some False"
    by code_simp
  then obtain r where r: "rfire_all wire_env wire_redis ?evs wire_start = Some r" "rw_net (world_of r) \<noteq> []"
    by auto
  have reach: "rreaches wire_env wire_redis wire_start r"
    by (rule rfire_all_reaches [OF r(1) rreaches_refl])
  have t: "WriteTimeout demo_config \<noteq> None" by (simp add: demo_config_def)
  obtain k where "rw_net (world_of r) = concat (map frames (chan_taken (c_outgoing (con (base r))))) @ replicate k JNull"
    using redis_feeds_the_outbox [OF wire_env_ok wire_world_ok(1,2) wire_records wire_apart wire_world_ok(3) t
        reach [unfolded wire_start_def]] by blast
  then show ?thesis using reach r(2) by (intro exI [of _ r] exI [of _ k]) auto
qed

end
