(* ===== verification/TurnBounds.thy ===== *)
theory TurnBounds
  imports SystemProperties
begin

text \<open>
  How many waiting points a piece of code has, whatever the others do while it waits: the operations
  of a connection, one turn of \<open>processMessages\<close>, one call of an exported method.
\<close>

subsection \<open>Counting waiting points\<close>

primrec waits_within :: "nat \<Rightarrow> ('p, 'a, 's) prog \<Rightarrow> bool" where
  "waits_within n (Ret a s) = True"
| "waits_within n (Panic p s) = True"
| "waits_within n (Wait g s k) = (n > 0 \<and> (\<forall>t. waits_within (n - 1) (k t)))"

lemma waits_within_mono: "waits_within n m \<Longrightarrow> n \<le> n' \<Longrightarrow> waits_within n' m"
proof (induction m arbitrary: n n')
  case (Wait g s k)
  have "waits_within (n - 1) (k t)" "n - 1 \<le> n' - 1" for t using Wait.prems by simp_all
  then have "waits_within (n' - 1) (k t)" for t using Wait.IH [OF rangeI] by blast
  with Wait.prems show ?case by simp
qed auto

lemma within_andthen:
  assumes "waits_within n m" and "n \<le> k" and "\<And>a s. waits_within (k - n) (f a s)"
  shows "waits_within k (andthen m f)"
  using assms
proof (induction m arbitrary: n k)
  case (Ret a s)
  then show ?case using waits_within_mono [of "k - n" "f a s" k] by simp
next
  case (Wait g s h)
  have "waits_within (n - 1) (h t)" "n - 1 \<le> k - 1" "k - 1 - (n - 1) = k - n" for t
    using Wait.prems by auto
  then have "waits_within (k - 1) (andthen (h t) f)" for t
    using Wait.IH [OF rangeI, of "n - 1" _ "k - 1"] Wait.prems(3) by simp
  with Wait.prems show ?case by simp
qed simp

lemma within_finally: "waits_within n m \<Longrightarrow> waits_within n (finally_do m u)"
  by (induction m arbitrary: n) auto

lemma within_catch:
  assumes "waits_within n m" and "n \<le> k" and "\<And>p s. waits_within (k - n) (h p s)"
  shows "waits_within k (catch_panic m h)"
  using assms
proof (induction m arbitrary: n k)
  case (Panic p s)
  then show ?case using waits_within_mono [of "k - n" "h p s" k] by simp
next
  case (Wait g s f)
  have "waits_within (n - 1) (f t)" "n - 1 \<le> k - 1" "k - 1 - (n - 1) = k - n" for t
    using Wait.prems by auto
  then have "waits_within (k - 1) (catch_panic (f t) h)" for t
    using Wait.IH [OF rangeI, of "n - 1" _ "k - 1"] Wait.prems(3) by simp
  with Wait.prems show ?case by simp
qed (auto intro: waits_within_mono)

lemma within_wait_for:
  "0 < n \<Longrightarrow> (\<And>t. waits_within (n - 1) (k t)) \<Longrightarrow> waits_within n (wait_for g k s)"
  by (simp add: wait_for_def)

subsection \<open>The operations\<close>

lemma no_waits:
  "waits_within n (close_out c)" "waits_within n (close_in c)" "waits_within n (close_shutdown c)"
  "waits_within n (extcall f c)" "waits_within n (invoke h arg c)"
  "waits_within n (each_handler (calling sel arg E) (do_reaction react) hs c)"
  by (auto simp: close_out_def close_in_def close_shutdown_def extcall_def invoke_def
      each_handler_calling split: prod.splits call.splits sum.splits)

lemma one_wait:
  "waits_within (Suc n) (lock_state c)" "waits_within (Suc n) (rlock_state c)"
  "waits_within (Suc n) (lock_handlers c)" "waits_within (Suc n) (sleep c)"
  "waits_within (Suc n) (send_out m c)" "waits_within (Suc n) (send_in m c)"
  by (auto simp: lock_state_def rlock_state_def lock_handlers_def send_out_def send_in_def sleep_def
      wait_for_def)

text \<open>An operation with \<open>n\<close> waiting points, alone and followed by others.\<close>

lemmas then_none = within_andthen [where n = 0, OF _ le0, simplified]
lemmas then_one = within_andthen [where n = "Suc 0" and k = "Suc k" for k, simplified]

lemmas one_seq = one_wait one_wait [THEN then_one]
lemmas none_seq = no_waits no_waits [THEN then_none]

lemma within_states: "waits_within (Suc n) (getState c)" "waits_within (Suc n) (setState v c)"
  unfolding getState_def setState_def by (intro one_seq; simp)+

lemma within_registration:
  "waits_within (Suc n) (AddHandler h c)" "waits_within (Suc n) (RemoveHandler h c)"
  unfolding AddHandler_def RemoveHandler_def by (intro one_seq; simp split: option.split)+

lemma within_close: "waits_within (Suc (Suc n)) (close E c)"
proof -
  have tail: "waits_within (Suc n) (andthen (sleep c) (\<lambda>_ c. andthen (close_out c) (\<lambda>_ c.
      andthen (close_in c) (\<lambda>_ c. extcall (ws_Close E) c))))" for c
    by (intro one_seq none_seq)
  have "waits_within (Suc n) (close_body E c)" for c
    unfolding close_body_def
    by (auto intro!: none_seq tail split: loop_end.split)
  then show ?thesis
    unfolding close_def by (intro one_seq within_finally)
qed

lemma within_errors:
  "waits_within (Suc (Suc n)) (SendError E err c)" "waits_within (Suc (Suc n)) (sendConnectionError err c)"
  "waits_within (Suc (Suc n)) (sendOperationErrors E i errs c)"
  unfolding SendError_def sendConnectionError_def sendOperationErrors_def
  by (intro within_states(1) [THEN then_one] one_seq within_finally;
      auto intro!: one_seq split: option.split)+

lemma within_sends:
  "waits_within (Suc n) (SendData m c)" "waits_within (Suc n) (Subscription_SendData E x d c)"
  unfolding SendData_def Subscription_SendData_def
  by (auto intro!: one_seq split: option.split)

lemma within_pongHandler: "waits_within n (pongHandler E p c)"
  unfolding pongHandler_def
  by (auto intro!: none_seq split: option.split loop_end.split)

lemma within_recover: "waits_within (Suc (Suc n)) (recover E t r c)"
  unfolding recover_def
  by (intro none_seq within_states(1) [THEN then_one]) (auto intro!: one_seq)

lemma within_Close: "waits_within (Suc (Suc (Suc n))) (Close E c)"
  unfolding Close_def
  by (intro within_states(1) [THEN then_one])
    (auto intro!: none_seq within_close split: option.split)

subsection \<open>A turn of \<open>processMessages\<close>\<close>

text \<open>Only the last handler asked about the handshake can make the loop wait.\<close>

lemma within_init_loop:
  "waits_within (Suc (Suc n)) (each_handler (calling HandleConnectionInit arg E) init_reaction hs c)"
proof (induction hs arbitrary: c)
  case (Cons h hs)
  have "waits_within (Suc (Suc n)) (andthen (init_reaction e s) (\<lambda>ctl s. case ctl of
      Next \<Rightarrow> each_handler (calling HandleConnectionInit arg E) init_reaction hs s
    | Break \<Rightarrow> Ret Broken s | Return r \<Rightarrow> Ret (Returned r) s))" for e s
  proof (cases "\<exists>x. e = Some x \<and> \<not> is_handler_err x")
    case True
    then obtain x where x: "e = Some x" "\<not> is_handler_err x" by blast
    then have "init_reaction e s = andthen (sendConnectionError x s) (\<lambda>_ c. Ret (Return x) c)"
      by (cases x) (simp_all add: init_reaction_def)
    then show ?thesis
      by (simp add: andthen_assoc)
        (rule within_andthen [where n = "Suc (Suc 0)", OF within_errors(2)]; simp)
  next
    case False
    then have "(\<exists>ctl. init_reaction e s = Ret ctl s) \<or> (\<exists>p. init_reaction e s = Panic p s)"
      by (auto simp: init_reaction_def split: option.split goerr.split)
    then show ?thesis
      using Cons by (auto split: ctl.split)
  qed
  then have "waits_within (Suc (Suc n)) (andthen (invoke m arg c) (\<lambda>e s. andthen (init_reaction e s) (\<lambda>ctl s.
      case ctl of
        Next \<Rightarrow> each_handler (calling HandleConnectionInit arg E) init_reaction hs s
      | Break \<Rightarrow> Ret Broken s | Return r \<Rightarrow> Ret (Returned r) s)))" for m
    by (intro none_seq)
  moreover have "calling HandleConnectionInit arg E h = None \<or>
      (\<exists>m. calling HandleConnectionInit arg E h = Some (invoke m arg))"
    by (cases "HandleConnectionInit (methods_of (impls E) h)") (auto simp: calling_def)
  ultimately show ?case using Cons by auto
qed simp

lemma within_process:
  "waits_within 5 (process_init E m c)" "waits_within 1 (process_terminate E c)"
  "waits_within 3 (process_start E m c)" "waits_within 2 (process_stop E m c)"
proof -
  have l: "waits_within (Suc (Suc (Suc 0))) (lockHandlers (\<lambda>c.
      each_handler (calling HandleConnectionInit arg E) init_reaction (c_Handlers c) c) c)" for arg
    unfolding lockHandlers_def by (intro one_seq within_finally within_init_loop)
  show "waits_within 5 (process_init E m c)"
    unfolding process_init_def
    by (rule within_andthen [OF l])
      (auto intro!: one_seq within_states(2) [THEN then_one] simp: eval_nat_numeral split: loop_end.split)
  show "waits_within 1 (process_terminate E c)"
    unfolding process_terminate_def by (auto intro!: none_seq one_seq)
  have e: "waits_within n (connection_start_errors E start hs errs c)" for n start hs errs and c :: "'a conn"
    by (induction hs arbitrary: errs c) (auto simp: calling_def intro!: none_seq split: option.split)
  have g: "waits_within (Suc (Suc 0)) (gqlStart E start c)" for start and c :: "'a conn"
    unfolding gqlStart_def Let_def
    by (rule within_andthen [OF e, where n = 0])
      (auto intro!: none_seq within_errors(3) [THEN within_andthen] split: sum.split)
  show "waits_within 3 (process_start E m c)"
    unfolding process_start_def eval_nat_numeral
    by (intro within_states(1) [THEN then_one])
      (auto intro!: g within_errors(3) [THEN within_andthen] split: sum.split)
  have "waits_within n (gqlStop E stop c)" for n stop and c :: "'a conn"
    unfolding gqlStop_def by (auto intro!: none_seq split: option.split)
  then show "waits_within 2 (process_stop E m c)"
    unfolding process_stop_def eval_nat_numeral
    by (auto intro!: within_close [THEN within_andthen] split: sum.split)
qed

lemma within_processIncomeMessage: "waits_within 5 (processIncomeMessage E p c)"
  unfolding processIncomeMessage_def
  by (auto intro: within_process within_process [THEN waits_within_mono] split: option.split)

lemma within_select_body: "waits_within 5 (select_body E sel c)"
proof (cases sel)
  case SelIncoming
  then show ?thesis
    unfolding select_body_def
    by (auto simp: Let_def intro: within_processIncomeMessage [THEN within_andthen] split: prod.split)
qed (auto simp: select_body_def processOutgoingMessage_def send_ping_def intro!: none_seq then_none
    split: prod.split option.split)

lemma within_exits: "waits_within 2 (deferred_close E po c)" "waits_within 4 (processMessages_exit E po c)"
  "waits_within 2 (readPump_exit E po c)"
proof -
  have d: "waits_within 2 (deferred_close E po c)" for c :: "'a conn"
    unfolding deferred_close_def eval_nat_numeral
    by (rule within_catch [where n = "Suc (Suc 0)"]) (auto intro: within_close [THEN within_andthen])
  then show "waits_within 2 (deferred_close E po c)" .
  show "waits_within 4 (processMessages_exit E po c)"
    unfolding processMessages_exit_def
    by (rule within_andthen [OF d]) (auto intro: within_recover simp: eval_nat_numeral split: option.split)
  show "waits_within 2 (readPump_exit E po c)"
    unfolding readPump_exit_def by (rule within_andthen [OF d]) (auto split: option.split)
qed

subsection \<open>The code of the goroutines\<close>

lemma within_processor: "waits_within 6 (processor_code E ph po sel c)"
proof (cases ph)
  case Starting
  then show ?thesis
    by (auto simp: processor_code_def processMessages_start_def eval_nat_numeral
        intro: within_recover [THEN within_andthen])
next
  case Looping
  then show ?thesis
    by (auto simp: processor_code_def processMessages_body_def intro!: within_wait_for within_select_body)
next
  case Leaving
  then show ?thesis
    by (auto simp: processor_code_def intro: within_exits(2) [THEN within_andthen])
qed

lemma within_api: "waits_within 3 (api_code E a c)"
  by (cases a) (auto simp: eval_nat_numeral intro: within_Close [THEN within_andthen]
      within_sends [THEN within_andthen] within_errors [THEN within_andthen]
      within_registration [THEN within_andthen])

subsection \<open>Executions\<close>

fun resumes_within :: "nat \<Rightarrow> 'w goroutine \<Rightarrow> bool" where
  "resumes_within n (Suspended ph g k) = (n > 0 \<and> (\<forall>t. waits_within (n - 1) (k t)))"
| "resumes_within n g = True"

lemma settle_within: "waits_within n m \<Longrightarrow> settle ph m = (g, c) \<Longrightarrow> resumes_within n g"
  by (induction ph m rule: settle.induct) (auto split: if_splits)

lemma resumes_within_mono: "resumes_within n g \<Longrightarrow> n \<le> n' \<Longrightarrow> resumes_within n' g"
  by (cases g) (auto elim!: waits_within_mono allE)

lemma resumed_within:
  "resumes_within n (Suspended ph gd k) \<Longrightarrow> settle ph (k t) = (g, c) \<Longrightarrow> n > 0 \<and> resumes_within (n - 1) g"
  by (auto intro: settle_within)

definition turns_ok :: "'w sys \<Rightarrow> bool" where
  "turns_ok s \<longleftrightarrow> resumes_within 6 (pr s) \<and> (\<forall>g \<in> set (cls s). resumes_within 3 g)"

lemma turns_ok_step: "sys_step E s ev t \<Longrightarrow> turns_ok s \<Longrightarrow> turns_ok t"
proof (induction rule: sys_step.induct)
  case (reader_go s ph po pongs r g c)
  then show ?case by (simp add: turns_ok_def)
next
  case (reader_resume s ph guard k g c)
  then show ?case by (simp add: turns_ok_def)
next
  case (proc_go s ph po sel g c)
  with settle_within [OF within_processor] show ?case by (auto simp: turns_ok_def)
next
  case (proc_resume s ph guard k g c)
  then have "resumes_within 6 g"
    using resumed_within [of 6 ph guard k "con s" g c] by (auto simp: turns_ok_def elim: resumes_within_mono)
  with proc_resume show ?case by (simp add: turns_ok_def)
next
  case (call_go s a g c)
  with settle_within [OF within_api] show ?case by (auto simp: turns_ok_def)
next
  case (call_resume s i ph guard k g c)
  then have "resumes_within 3 (Suspended ph guard k)" by (metis nth_mem turns_ok_def)
  then have "resumes_within 3 g"
    using resumed_within [of 3 ph guard k "con s" g c] call_resume by (auto elim: resumes_within_mono)
  with call_resume show ?case
    by (auto simp: turns_ok_def dest!: subsetD [OF set_update_subset_insert])
qed

lemma turns_ok_reaches: "reaches E s t \<Longrightarrow> turns_ok s \<Longrightarrow> turns_ok t"
  by (induction rule: reaches.induct) (auto intro: turns_ok_step)

lemma turns_ok_start: "turns_ok (start_sys (snd (NewConn schema config n w)))"
  by (simp add: turns_ok_def start_sys_def)

lemma reachable_turns_ok: "reachable E s \<Longrightarrow> turns_ok s"
  unfolding reachable_def by (elim exE) (rule turns_ok_reaches [OF _ turns_ok_start])

text \<open>An event that uses up a rank, which no other event raises, occurs at most that often.\<close>

lemma ranked_events:
  assumes "\<And>n s t. rank n s \<Longrightarrow> fire E ev s = Some t \<Longrightarrow> n > 0 \<and> rank (n - 1) t"
    and "\<And>n s t e. rank n s \<Longrightarrow> fire E e s = Some t \<Longrightarrow> e \<noteq> ev \<Longrightarrow> allowed e \<Longrightarrow> rank n t"
    and "rank n s" and "fire_all E evs s = Some t" and "\<forall>e \<in> set evs. allowed e"
  shows "count_list evs ev \<le> n"
  using assms(3-5)
proof (induction evs arbitrary: n s)
  case (Cons e evs)
  then obtain u where u: "fire E e s = Some u" "fire_all E evs u = Some t"
    by (auto split: option.splits)
  show ?case
  proof (cases "e = ev")
    case True
    with u Cons.prems assms(1) have "n > 0" "rank (n - 1) u" by blast+
    then have "count_list evs ev \<le> n - 1" using Cons.IH u(2) Cons.prems(3) by simp
    with True \<open>n > 0\<close> show ?thesis by simp
  next
    case False
    with u Cons.prems assms(2) [of n s e u] have "rank n u" by simp
    with False u Cons show ?thesis by simp
  qed
qed simp

lemma resume_ranks:
  "resumes_within n (pr s) \<Longrightarrow> fire E ProcResume s = Some t \<Longrightarrow> n > 0 \<and> resumes_within (n - 1) (pr t)"
  "i < length (cls s) \<and> resumes_within n (cls s ! i) \<Longrightarrow> fire E (CallResume i) s = Some t \<Longrightarrow>
    n > 0 \<and> i < length (cls t) \<and> resumes_within (n - 1) (cls t ! i)"
  unfolding sys_step_iff_fire [symmetric]
  by (auto elim!: proc_resume_cases call_resume_cases dest!: settle_within [rotated])

lemma other_ranks:
  assumes "fire E e s = Some t"
  shows "(\<forall>sel. e \<noteq> ProcGo sel) \<Longrightarrow> e \<noteq> ProcResume \<Longrightarrow> pr t = pr s"
    and "e \<noteq> CallResume i \<Longrightarrow> i < length (cls s) \<Longrightarrow> i < length (cls t) \<and> cls t ! i = cls s ! i"
  using assms unfolding sys_step_iff_fire [symmetric]
  by (auto elim!: sys_step.cases simp: nth_append) (metis nth_list_update_neq)

lemma other_resume_ranks:
  "resumes_within n (pr s) \<Longrightarrow> fire E e s = Some t \<Longrightarrow> e \<noteq> ProcResume \<Longrightarrow>
    \<forall>sel. e \<noteq> ProcGo sel \<Longrightarrow> resumes_within n (pr t)"
  "i < length (cls s) \<and> resumes_within n (cls s ! i) \<Longrightarrow> fire E e s = Some t \<Longrightarrow>
    e \<noteq> CallResume i \<Longrightarrow> True \<Longrightarrow> i < length (cls t) \<and> resumes_within n (cls t ! i)"
  using other_ranks [of E e s t] by auto

text \<open>
  Counted in waiting points, a turn of the processing goroutine and a call of an exported method
  are bounded, in every execution: the former is resumed at most six times before the next turn,
  the latter at most three times in all.  Whether a wait ends is another matter.
\<close>

lemma turns_and_calls_are_bounded:
  assumes "reachable E s" and "fire_all E evs s = Some t"
  shows "((\<forall>sel. ProcGo sel \<notin> set evs) \<longrightarrow> count_list evs ProcResume \<le> 6) \<and>
    (\<forall>i < length (cls s). count_list evs (CallResume i) \<le> 3)"
proof (intro conjI impI allI)
  have ok: "resumes_within 6 (pr s)" "\<forall>g \<in> set (cls s). resumes_within 3 g"
    using reachable_turns_ok [OF assms(1)] by (simp_all add: turns_ok_def)
  show "count_list evs ProcResume \<le> 6" if "\<forall>sel. ProcGo sel \<notin> set evs"
    by (rule ranked_events [where rank = "\<lambda>n s. resumes_within n (pr s)"
          and allowed = "\<lambda>e. \<forall>sel. e \<noteq> ProcGo sel" and s = s and t = t and E = E])
      (erule (1) resume_ranks, erule (3) other_resume_ranks, use ok(1) assms(2) that in auto)
  show "count_list evs (CallResume i) \<le> 3" if "i < length (cls s)" for i
    by (rule ranked_events [where rank = "\<lambda>n s. i < length (cls s) \<and> resumes_within n (cls s ! i)"
          and allowed = "\<lambda>_. True" and s = s and t = t and E = E])
      (erule (1) resume_ranks, erule (3) other_resume_ranks, use ok(2) assms(2) that in auto)
qed

end
