(* ===== verification/RedisEnding.thy ===== *)
theory RedisEnding
  imports RedisWire TurnBounds
begin

text \<open>
  The goroutine of a reader that was closed comes to its end: the steps it can still take are
  counted, whatever the others do, and wherever it is between two turns it can take them.
\<close>

subsection \<open>Waiting points of the goroutine\<close>

lemma within_then_Ret: "waits_within n m \<Longrightarrow> waits_within n (andthen m (\<lambda>a s. Ret (f a) s))"
  by (rule within_andthen [OF _ order_refl]) simp_all

lemma within_pause: "0 < n \<Longrightarrow> (\<And>t. waits_within (n - 1) (m t)) \<Longrightarrow> waits_within n (pause m s)"
  unfolding pause_def by (rule within_wait_for)

lemma within_reader:
  "waits_within (Suc n) (reader_getState i s)" "waits_within (Suc n) (reader_setState i v s)"
  "waits_within (Suc n) (netcall f s)"
  unfolding reader_getState_def reader_setState_def netcall_def
  by (auto intro!: within_pause split: prod.split)

lemma within_failed: "waits_within 3 (subscription_failed E L i k s)"
  unfolding subscription_failed_def Let_def eval_nat_numeral
  by (rule within_finally) (auto intro: within_Close [THEN within_andthen])

lemma within_subscribe: "waits_within 4 (readLoop_subscribe E L i subscriber k s)"
  unfolding readLoop_subscribe_def Let_def
  by (rule within_andthen [where n = 1])
    (use within_reader(3) [where n = 0] within_failed in \<open>auto split: option.split\<close>)

lemma within_readLoop_start: "waits_within 7 (readLoop_start E L i subscriber s)"
proof -
  have "waits_within 5 (andthen (netcall (rl_Err L k) c) (\<lambda>err c. case err of
      Some e \<Rightarrow> Ret Again c | None \<Rightarrow> readLoop_subscribe E L i subscriber k c))" for k c
    by (rule within_andthen [where n = 1])
      (use within_reader(3) [where n = 0] within_subscribe in \<open>auto split: option.split\<close>)
  then have "waits_within 6 (andthen (netcall (rl_Dial L) c) (\<lambda>conn c. case conn of
      Inl err \<Rightarrow> Ret Again c
    | Inr k \<Rightarrow> andthen (netcall (rl_Err L k) c) (\<lambda>err c. case err of
          Some e \<Rightarrow> Ret Again c | None \<Rightarrow> readLoop_subscribe E L i subscriber k c)))" for c
    by (intro within_andthen [where n = 1])
      (use within_reader(3) [where n = 0] in \<open>auto split: sum.split\<close>)
  then show ?thesis
    unfolding readLoop_start_def
    by (intro within_andthen [where n = 1]) (use within_reader(1) [where n = 0] in auto)
qed

lemma within_publish:
  "waits_within 2 (andthen (netcall f c) (\<lambda>r c. andthen (Subscription_SendData E x (d r) c) (\<lambda>err c. Ret None c)))"
  unfolding numeral_2_eq_2
  by (intro within_reader(3) [THEN then_one] within_then_Ret) (simp add: within_sends(2) [of 0, simplified])

lemma within_readIteration: "waits_within 4 (readIteration E L i m s)"
  unfolding readIteration_def
  by (auto intro!: within_pause within_publish simp: Let_def split: option.split received.split)

lemma within_readLoop_turn: "waits_within 5 (readLoop_turn E L i k m s)"
proof -
  have "waits_within 5 (andthen (reader_getState i s) (\<lambda>st c. if st = readerStateClosed then Ret False c
      else andthen (readIteration E L i m c) (\<lambda>err c. Ret (err = None) c)))"
    by (rule within_andthen [where n = 1])
      (use within_reader(1) [where n = 0] within_readIteration in \<open>auto intro!: within_then_Ret\<close>)
  then show ?thesis
    unfolding readLoop_turn_def
    by (rule within_catch [where k = 5, THEN within_andthen]) auto
qed

lemma within_pump_code: "waits_within 7 (pump_code E L x p m s)"
proof (cases x; cases p)
  show ?thesis if "x = (i, subscriber)" "p = PumpStart" for i subscriber
    using that within_reader(2) [where n = 6]
    by (auto simp: redis_readPump_start_def intro!: within_then_Ret)
  show ?thesis if "x = (i, subscriber)" "p = PumpListen k" for i subscriber k
    using that by (simp add: waits_within_mono [OF within_readLoop_turn])
qed (simp add: within_readLoop_start)

text \<open>So every goroutine that waits has at most six waiting points left in its turn.\<close>

fun pump_within :: "nat \<Rightarrow> 'n pump \<Rightarrow> bool" where
  "pump_within n (PumpWaits p g k) = (n > 0 \<and> (\<forall>t. waits_within (n - 1) (k t)))"
| "pump_within n g = True"

lemma settle_pump_within: "waits_within n m \<Longrightarrow> pump_within n (fst (settle_pump p m))"
  by (induction p m rule: settle_pump.induct) auto

lemma put_pump_nth:
  assumes "i < length (pumps (put_pump r j x))"
  shows "pumps (put_pump r j x) ! i = (if i = j \<and> j < length (pumps r) then fst x
    else if i < length (pumps r) then pumps r ! i else PumpAt PumpStart)"
  using assms by (auto simp: put_pump_def nth_new_pumps)

lemma pump_within_step:
  assumes "rfire E L ev r = Some t" and "\<forall>i < length (pumps r). pump_within 7 (pumps r ! i)"
  shows "\<forall>i < length (pumps t). pump_within 7 (pumps t ! i)"
proof (cases ev)
  case (Base e)
  with assms show ?thesis
    by (auto simp: rfire_def new_pumps_def nth_append split: if_splits option.splits)
next
  case (PumpGo j m)
  with assms show ?thesis
    by (auto simp: rfire_def put_pump_nth settle_pump_within [OF within_pump_code]
        split: if_splits pump.splits)
next
  case (PumpResume j)
  then obtain p g k where p: "pumps r ! j = PumpWaits p g k" "j < length (pumps r)"
    "t = put_pump r j (settle_pump p (k (con (base r))))"
    using assms(1) by (auto simp: rfire_def split: if_splits pump.splits)
  have "pump_within 7 (PumpWaits p g k)" using p(1,2) assms(2) by metis
  then have "waits_within 7 (k (con (base r)))" by (auto intro: waits_within_mono)
  from settle_pump_within [OF this] p assms(2) show ?thesis by (auto simp: put_pump_nth)
qed

lemma pump_within_reaches:
  assumes "rreaches E L r t" and "pumps r = []"
  shows "\<forall>i < length (pumps t). pump_within 7 (pumps t ! i)"
  using assms
proof (induction rule: rreaches.induct)
  case (rreaches_step r s ev t)
  then show ?case using pump_within_step [OF rreaches_step(2)] by blast
qed simp

subsection \<open>The steps of a goroutine whose reader is closed\<close>

text \<open>
  \<open>ends_in i n m\<close>: if reader \<open>i\<close> is closed whenever \<open>m\<close> goes on, the goroutine that runs \<open>m\<close> takes at
  most \<open>n\<close> further steps: from its loop it needs two, from the loop of \<open>readLoop\<close> four.
\<close>

fun turn_rank :: "turn \<Rightarrow> nat" where
  "turn_rank ReaderDone = 0"
| "turn_rank Again = 2"
| "turn_rank (Listening k) = 4"

primrec ends_in :: "nat \<Rightarrow> nat \<Rightarrow> (turn, 'n) rprog \<Rightarrow> bool" where
  "ends_in i n (Ret a s) = (turn_rank a \<le> n)"
| "ends_in i n (Panic p s) = True"
| "ends_in i n (Wait g s k) = (n > 0 \<and> (\<forall>t. reader_closed i (c_world t) \<longrightarrow> ends_in i (n - 1) (k t)))"

fun pump_ends_in :: "nat \<Rightarrow> nat \<Rightarrow> 'n pump \<Rightarrow> bool" where
  "pump_ends_in i n (PumpAt PumpStart) = False"
| "pump_ends_in i n (PumpAt PumpLoop) = (2 \<le> n)"
| "pump_ends_in i n (PumpAt (PumpListen k)) = (4 \<le> n)"
| "pump_ends_in i n (PumpWaits p g k) =
     (n > 0 \<and> (\<forall>t. reader_closed i (c_world t) \<longrightarrow> ends_in i (n - 1) (k t)))"
| "pump_ends_in i n g = True"

lemma turn_rank_bound: "turn_rank a \<le> 4"
  by (cases a) simp_all

lemma ends_in_within: "waits_within n m \<Longrightarrow> ends_in i (n + 4) m"
proof (induction m arbitrary: n)
  case (Wait g s k)
  have "ends_in i (n - 1 + 4) (k t)" for t using Wait.IH [OF rangeI, of "n - 1" t] Wait.prems by simp
  with Wait.prems show ?case by (simp add: add.commute)
qed (simp_all add: trans_le_add2 turn_rank_bound)

lemma ends_in_mono: "ends_in i n m \<Longrightarrow> n \<le> n' \<Longrightarrow> ends_in i n' m"
  by (induction m arbitrary: n n') (auto 4 3 intro: diff_le_mono)

lemma settle_ends_in: "ends_in i n m \<Longrightarrow> pump_ends_in i n (fst (settle_pump p m))"
  by (induction p m rule: settle_pump.induct) auto

text \<open>The tests of the state at the start of a turn are what makes the goroutine end.\<close>

lemma closed_turns:
  "ends_in i 1 (readLoop_start E L i subscriber c)" "ends_in i 3 (readLoop_turn E L i k m c)"
  by (simp_all add: readLoop_start_def readLoop_turn_def reader_getState_def pause_def wait_for_def
      reader_closed_def)

lemma ending_go:
  assumes "rfire E L (PumpGo j m) r = Some t" and "pump_ends_in i n (pumps r ! j)" and "pump_reader r j = i"
  shows "n > 0 \<and> pump_ends_in i (n - 1) (pumps t ! j)"
proof -
  obtain p where p: "pumps r ! j = PumpAt p" "j < length (pumps r)" "t = put_pump r j (settle_pump p
      (pump_code E L (rw_pumps (world_of r) ! j) p m (con (base r))))"
    using assms(1) by (auto simp: rfire_def split: if_splits pump.splits)
  obtain subscriber where x: "rw_pumps (world_of r) ! j = (i, subscriber)"
    using assms(3) by (metis pump_reader_def prod.collapse)
  have "n > 0 \<and> ends_in i (n - 1) (pump_code E L (i, subscriber) p m (con (base r)))"
    using assms(2) p(1) ends_in_mono [OF closed_turns(1), of "n - 1" i E L subscriber]
      ends_in_mono [OF closed_turns(2), of "n - 1" i E L] by (cases p) simp_all
  with p x show ?thesis by (simp add: put_pump_facts settle_ends_in)
qed

lemma ending_resume:
  assumes "rfire E L (PumpResume j) r = Some t" and "pump_ends_in i n (pumps r ! j)"
    and "reader_closed i (world_of r)"
  shows "n > 0 \<and> pump_ends_in i (n - 1) (pumps t ! j)"
proof -
  obtain p g k where p: "pumps r ! j = PumpWaits p g k" "j < length (pumps r)"
    "t = put_pump r j (settle_pump p (k (con (base r))))"
    using assms(1) by (auto simp: rfire_def split: if_splits pump.splits)
  then have "n > 0 \<and> ends_in i (n - 1) (k (con (base r)))" using assms(2,3) by simp
  with p show ?thesis by (simp add: put_pump_facts settle_ends_in)
qed

lemma ending_other:
  assumes "rfire E L ev r = Some t" and "event_pump ev \<noteq> Some j" and "j < length (pumps r)"
  shows "pumps t ! j = pumps r ! j"
  using assms
  by (cases ev) (auto simp: rfire_def nth_new_pumps nth_put_pump split: if_splits option.splits pump.splits)

lemma ending_step:
  assumes "rfire E L ev r = Some t" and "pump_ends_in i n (pumps r ! j)" and "past_start i j r"
    and "reader_closed i (world_of r)"
  shows "if event_pump ev = Some j then n > 0 \<and> pump_ends_in i (n - 1) (pumps t ! j)
    else pump_ends_in i n (pumps t ! j)"
  using assms ending_go [of E L j _ r t i n] ending_resume [of E L j r t i n]
    ending_other [OF assms(1), of j]
  by (cases ev) (auto simp: past_start_def)

lemma steps_left:
  assumes "rfire_all E L evs r = Some t" and "redis_hosted L E" and "layers_ok i r"
    and "past_start i j r" and "reader_closed i (world_of r)" and "pump_ends_in i n (pumps r ! j)"
  shows "length (filter (\<lambda>ev. event_pump ev = Some j) evs) \<le> n"
  using assms(1,3-6)
proof (induction evs arbitrary: r n)
  case (Cons ev evs)
  then obtain s where s: "rfire E L ev r = Some s" "rfire_all E L evs s = Some t"
    by (auto split: option.splits)
  have l: "layers_ok i s" "past_start i j s" "reader_closed i (world_of s)"
    using layers_step [OF hosted_env_ok(1) [OF assms(2)] hosted_env_ok(2) [OF assms(2)] s(1) Cons.prems(2), of j]
      Cons.prems(3,4)
    by (auto simp: closed_step_def)
  show ?case
    using ending_step [OF s(1) Cons.prems(5,3,4)] Cons.IH [OF s(2) l, of n] Cons.IH [OF s(2) l, of "n - 1"]
    by (auto split: if_splits)
qed simp

lemma pump_within_ends: "pump_within 7 g \<Longrightarrow> \<not> starting g \<Longrightarrow> pump_ends_in i 11 g"
proof (cases g)
  case (PumpAt p)
  then show "\<not> starting g \<Longrightarrow> pump_ends_in i 11 g" by (cases p) simp_all
next
  case (PumpWaits p w k)
  then show "pump_within 7 g \<Longrightarrow> pump_ends_in i 11 g"
    using ends_in_within [of 6 "k t" for t] by simp
qed simp_all

lemma layers_ok_reached:
  assumes "redis_hosted L E" and "rw_subscriptions w = []" and "rw_pumps w = []"
    and "rreaches E L (start_rsys schema config n w) r"
  shows "layers_ok i r"
proof -
  note pt = tables_guarantee [OF hosted_env_ok(1) [OF assms(1)]]
    and pc = closed_guarantee [OF hosted_env_ok(2) [OF assms(1)]]
  have "world_of (start_rsys schema config n w) = w"
    by (simp add: start_rsys_def start_sys_def NewConn_def)
  then have "layers_ok i (start_rsys schema config n w)"
    using assms(2,3) pump_relation.rworld_ok_start [OF pt assms(3)] pump_relation.rworld_ok_start [OF pc assms(3)]
    by (simp add: layers_ok_def rsys_ok_start table_ok_def readers_ok_def)
  with layers_reach [OF hosted_env_ok(1) [OF assms(1)] hosted_env_ok(2) [OF assms(1)] assms(4)]
  show ?thesis by blast
qed

subsection \<open>Ending\<close>

lemma ends_from_loop:
  assumes "ralive r" and "j < length (pumps r)" and "j < length (rw_pumps (world_of r))"
    and "pumps r ! j = PumpAt PumpLoop" and "reader_closed (pump_reader r j) (world_of r)"
  shows "\<exists>t. rreaches E L r t \<and> pumps t ! j = PumpGone"
proof -
  let ?c = "con (base r)" and ?i = "pump_reader r j" and ?x = "snd (rw_pumps (world_of r) ! j)"
  have "run (readLoop_start E L ?i ?x ?c) = Done ReaderDone ?c"
    using assms(5) by (simp add: readLoop_start_def run_simps reader_closed_def)
  from pump_alone [OF this assms(1,2), of E L PumpLoop]
  obtain t where t: "rreaches E L (put_pump r j (settle_pump PumpLoop (readLoop_start E L ?i ?x ?c))) t"
    "pumps t ! j = PumpGone"
    by auto
  have "rfire E L (PumpGo j OtherReply) r = Some (put_pump r j (settle_pump PumpLoop (readLoop_start E L ?i ?x ?c)))"
    using assms(1-4) by (cases "rw_pumps (world_of r) ! j") (simp add: rfire_def pump_reader_def)
  with t show ?thesis using rreaches_trans [OF t(1)] rreaches_step [OF rreaches_refl] by blast
qed

lemma ends_from_turn:
  assumes "ralive r" and "j < length (pumps r)" and "j < length (rw_pumps (world_of r))"
    and "pumps r ! j = PumpAt (PumpListen k)" and "reader_closed (pump_reader r j) (world_of r)"
  shows "\<exists>t. rreaches E L r t \<and> pumps t ! j = PumpGone"
proof -
  let ?c = "con (base r)" and ?i = "pump_reader r j"
  let ?turn = "readLoop_turn E L ?i k OtherReply ?c"
  have "run ?turn = Done Again (close_pubSub L k ?c)"
    using assms(5) by (simp add: readLoop_turn_def run_simps reader_closed_def bind_outcome_def)
  from pump_alone [OF this assms(1,2), of E L "PumpListen k"]
  obtain q where q: "rreaches E L (put_pump r j (settle_pump (PumpListen k) ?turn)) q" "ralive q"
    "j < length (pumps q)" "con (base q) = close_pubSub L k ?c" "pumps q ! j = PumpAt PumpLoop"
    by auto
  have go: "rfire E L (PumpGo j OtherReply) r = Some (put_pump r j (settle_pump (PumpListen k) ?turn))"
    using assms(1-4) by (cases "rw_pumps (world_of r) ! j") (simp add: rfire_def pump_reader_def)
  have "rw_pumps (world_of q) = rw_pumps (world_of r)" "rw_readers (world_of q) = rw_readers (world_of r)"
    using q(4) by (simp_all add: close_pubSub_def)
  then obtain t where "rreaches E L q t" "pumps t ! j = PumpGone"
    using ends_from_loop [OF q(2,3) _ q(5), of E L] assms(3,5)
    by (auto simp: pump_reader_def reader_closed_def reader_at_def)
  then show ?thesis
    using rreaches_trans [OF q(1)] rreaches_trans rreaches_step [OF rreaches_refl go] by blast
qed

text \<open>
  C9: stopping ends the goroutine of a reader.  Let its goroutine have started and let the reader
  be closed, by a \<open>stop\<close> message or by the closing of the connection.  Then in every continuation
  the goroutine takes at most eleven further steps, whatever arrives from Redis and whatever the
  others do, and as long as the program runs, it can be brought to its end from every point
  between two turns of its loops.
\<close>

theorem stopped_readers_end:
  assumes "redis_hosted L E" and "rw_subscriptions w = []" and "rw_pumps w = []"
    and "rreaches E L (start_rsys schema config n w) r" and "past_start i j r"
    and "reader_closed i (world_of r)" and "rfire_all E L evs r = Some t"
  shows "length (filter (\<lambda>ev. event_pump ev = Some j) evs) \<le> 11 \<and>
    (ralive t \<and> pumps t ! j = PumpAt p \<longrightarrow> (\<exists>u. rreaches E L t u \<and> pumps u ! j = PumpGone))"
proof
  have r: "layers_ok i r" by (rule layers_ok_reached [OF assms(1-4)])
  have "pump_within 7 (pumps r ! j)"
    using pump_within_reaches [OF assms(4)] assms(5) by (simp add: start_rsys_def past_start_def)
  then have "pump_ends_in i 11 (pumps r ! j)"
    using assms(5) by (auto intro: pump_within_ends simp: past_start_def)
  then show "length (filter (\<lambda>ev. event_pump ev = Some j) evs) \<le> 11"
    by (rule steps_left [OF assms(7,1) r assms(5,6)])
  have t: "layers_ok i t" "past_start i j t" "reader_closed i (world_of t)"
    using layers_reach [OF hosted_env_ok(1) [OF assms(1)] hosted_env_ok(2) [OF assms(1)]
        rfire_all_reaches [OF assms(7) rreaches_refl] r, of j] assms(5,6)
    by (auto simp: closed_step_def)
  then have "length (pumps t) = length (rw_pumps (world_of t))"
    by (simp add: layers_ok_def
        pump_relation.rworld_ok_def [OF tables_guarantee [OF hosted_env_ok(1) [OF assms(1)]]])
  with t show "ralive t \<and> pumps t ! j = PumpAt p \<longrightarrow> (\<exists>u. rreaches E L t u \<and> pumps u ! j = PumpGone)"
    using ends_from_loop [of t j E L] ends_from_turn [of t j _ E L]
    by (cases p) (auto simp: past_start_def)
qed

fun at_loop :: "'n pump \<Rightarrow> bool" where
  "at_loop (PumpAt p) = (p = PumpLoop)"
| "at_loop g = False"

lemma at_loop_iff: "at_loop g \<longleftrightarrow> g = PumpAt PumpLoop"
  by (cases g) simp_all

definition last_turns :: "revent list" where
  "last_turns = [PumpGo 0 OtherReply, PumpResume 0]"

lemma last_turns_run:
  "map_option (\<lambda>r. (length (pumps r), starting (pumps r ! 0), pump_reader r 0, reader_closed 0 (world_of r),
       map_option (\<lambda>t. (ralive t, at_loop (pumps t ! 0)))
         (rfire_all fed_env own_topics last_turns r)))
     (rfire_all fed_env own_topics stopped_while_listening fed_start) =
   Some (1, False, 0, True, Some (True, True))"
  by code_simp

theorem stopped_readers_end_witness:
  "\<exists>r t u. rreaches fed_env own_topics fed_start r \<and> reader_closed 0 (world_of r) \<and>
     rfire_all fed_env own_topics last_turns r = Some t \<and> rreaches fed_env own_topics t u \<and> pumps u ! 0 = PumpGone"
proof -
  obtain r t where r: "rfire_all fed_env own_topics stopped_while_listening fed_start = Some r"
    "length (pumps r) = 1" "\<not> starting (pumps r ! 0)" "pump_reader r 0 = 0" "reader_closed 0 (world_of r)"
    and t: "rfire_all fed_env own_topics last_turns r = Some t" "ralive t" "pumps t ! 0 = PumpAt PumpLoop"
    using last_turns_run by (auto simp: at_loop_iff)
  have past: "past_start 0 0 r" using r(2-4) by (simp add: past_start_def)
  have reach: "rreaches fed_env own_topics fed_start r"
    by (rule rfire_all_reaches [OF r(1) rreaches_refl])
  have w: "rw_subscriptions demo_redis_world = []" "rw_pumps demo_redis_world = []"
    by (simp_all add: demo_redis_world_def)
  from stopped_readers_end [OF fed_env_hosted w reach [unfolded fed_start_def] past r(5) t(1)] t(2,3)
  obtain u where "rreaches fed_env own_topics t u" "pumps u ! 0 = PumpGone" by blast
  with reach r(5) t(1) show ?thesis by blast
qed

end
