(* ===== verification/LockDiscipline.thy ===== *)
theory LockDiscipline
  imports SystemProperties "HOL-Library.Multiset"
begin

text \<open>
  The locks of a connection: what each goroutine holds while it waits, whatever the others do.
  Every operation gives back what it takes, on every path, also when it panics; the read and
  write locks of \<open>stateMutex\<close> exclude each other; and while some goroutine holds the read lock
  no other one changes the state of the connection or closes anything.
\<close>

subsection \<open>Holding locks\<close>

datatype lock = StateR | StateW | HandlersL

definition locks_of :: "'w conn \<Rightarrow> lock multiset" where
  "locks_of c = replicate_mset (c_rlocks c) StateR + (if c_wlock c then {#StateW#} else {#}) +
     (if c_hlock c then {#HandlersL#} else {#})"

definition lock_ok :: "'w conn \<Rightarrow> bool" where
  "lock_ok c \<longleftrightarrow> (StateW \<in># locks_of c \<longrightarrow> StateR \<notin># locks_of c)"

lemma in_locks_of [simp]:
  "StateR \<in># locks_of c \<longleftrightarrow> c_rlocks c > 0"
  "StateW \<in># locks_of c \<longleftrightarrow> c_wlock c"
  "HandlersL \<in># locks_of c \<longleftrightarrow> c_hlock c"
  by (auto simp: locks_of_def)

lemma locks_of_empty: "locks_of c = {#} \<longleftrightarrow> idle c"
  by (auto simp: locks_of_def idle_def)

definition quiet :: "'w conn \<Rightarrow> 'w conn \<Rightarrow> bool" where
  "quiet s t \<longleftrightarrow> c_state t = c_state s \<and> c_shutdown t = c_shutdown s \<and>
     chan_closed (c_outgoing t) = chan_closed (c_outgoing s) \<and>
     chan_closed (c_incoming t) = chan_closed (c_incoming s)"

lemma quiet_refl [simp]: "quiet s s"
  by (simp add: quiet_def)

lemma quiet_trans: "quiet s t \<Longrightarrow> quiet t u \<Longrightarrow> quiet s u"
  by (simp add: quiet_def)

text \<open>
  A stretch of code of a goroutine that holds \<open>h\<close> at its start and \<open>h'\<close> at its end: the locks
  of the others stay as they are.
\<close>

definition moves :: "lock multiset \<Rightarrow> 'w conn \<Rightarrow> lock multiset \<Rightarrow> 'w conn \<Rightarrow> bool" where
  "moves h s h' t \<longleftrightarrow> locks_of t = locks_of s - h + h' \<and> (lock_ok s \<longrightarrow> lock_ok t) \<and>
     (StateR \<in># locks_of s - h \<longrightarrow> quiet s t)"

lemma moves_refl: "h \<subseteq># locks_of s \<Longrightarrow> moves h s h s"
  by (simp add: moves_def)

lemma moves_trans: "moves h s h' t \<Longrightarrow> moves h' t h'' u \<Longrightarrow> moves h s h'' u"
  by (auto simp: moves_def intro: quiet_trans)

lemma moves_held: "moves h s h' t \<Longrightarrow> h' \<subseteq># locks_of t"
  by (simp add: moves_def)

lemma moves_ok: "moves h s h' t \<Longrightarrow> lock_ok s \<Longrightarrow> lock_ok t"
  by (simp add: moves_def)

text \<open>
  \<open>bal q p h s m\<close>: started in \<open>s\<close> by a goroutine that holds \<open>h\<close>, the routine \<open>m\<close> holds \<open>q\<close> when it
  returns, \<open>p\<close> when it panics, and a definite collection of locks whenever it waits.
\<close>

primrec bal ::
  "lock multiset \<Rightarrow> lock multiset \<Rightarrow> lock multiset \<Rightarrow> 'w conn \<Rightarrow> ('a, 'w) cprog \<Rightarrow> bool" where
  "bal q p h s0 (Ret a s) = moves h s0 q s"
| "bal q p h s0 (Panic x s) = moves h s0 p s"
| "bal q p h s0 (Wait g s k) = (\<exists>h'. moves h s0 h' s \<and>
     (\<forall>t. h' \<subseteq># locks_of t \<longrightarrow> lock_ok t \<longrightarrow> g t \<longrightarrow> bal q p h' t (k t)))"

lemma bal_trans: "moves h s h' t \<Longrightarrow> bal q p h' t m \<Longrightarrow> bal q p h s m"
  by (cases m) (auto intro: moves_trans)

lemma bal_andthen:
  assumes "bal q p h s m" and "lock_ok s"
    and "\<And>a t. q \<subseteq># locks_of t \<Longrightarrow> lock_ok t \<Longrightarrow> bal q' p q t (f a t)"
  shows "bal q' p h s (andthen m f)"
  using assms(1,2)
proof (induction m arbitrary: h s)
  case (Ret a t)
  then show ?case
    using assms(3) by (auto intro: bal_trans moves_held moves_ok)
qed auto

lemma bal_finally:
  assumes "bal q p h s m" and "lock_ok s"
    and "\<And>t. q \<subseteq># locks_of t \<Longrightarrow> lock_ok t \<Longrightarrow> moves q t q' (u t)"
    and "\<And>t. p \<subseteq># locks_of t \<Longrightarrow> lock_ok t \<Longrightarrow> moves p t p' (u t)"
  shows "bal q' p' h s (finally_do m u)"
  using assms(1,2)
proof (induction m arbitrary: h s)
  case (Ret a t)
  then show ?case
    using moves_trans [OF _ assms(3)] by (auto intro: moves_held moves_ok)
next
  case (Panic x t)
  then show ?case
    using moves_trans [OF _ assms(4)] by (auto intro: moves_held moves_ok)
qed auto

lemma bal_catch:
  assumes "bal q p h s m" and "lock_ok s"
    and "\<And>x t. p \<subseteq># locks_of t \<Longrightarrow> lock_ok t \<Longrightarrow> bal q p' p t (f x t)"
  shows "bal q p' h s (catch_panic m f)"
  using assms(1,2)
proof (induction m arbitrary: h s)
  case (Panic x t)
  then show ?case
    using assms(3) by (auto intro: bal_trans moves_held moves_ok)
qed auto

subsection \<open>Operations give back what they take\<close>

text \<open>\<open>X\<close>: locks the caller holds around the operation.\<close>

definition rel :: "lock multiset \<Rightarrow> 'w conn \<Rightarrow> ('a, 'w) cprog \<Rightarrow> bool" where
  "rel X s m \<longleftrightarrow> (\<forall>h. X \<subseteq># h \<longrightarrow> h \<subseteq># locks_of s \<longrightarrow> lock_ok s \<longrightarrow> bal h h h s m)"

lemma rel_andthen: "rel X s m \<Longrightarrow> (\<And>a t. rel X t (f a t)) \<Longrightarrow> rel X s (andthen m f)"
  unfolding rel_def by (blast intro: bal_andthen)

lemma rel_catch: "rel X s m \<Longrightarrow> (\<And>x t. rel X t (f x t)) \<Longrightarrow> rel X s (catch_panic m f)"
  unfolding rel_def by (blast intro: bal_catch)

lemma rel_wait: "(\<And>t. g t \<Longrightarrow> rel X t (k t)) \<Longrightarrow> rel X s (wait_for g k s)"
  by (auto simp: rel_def wait_for_def intro!: exI moves_refl)

text \<open>An update of other fields; of the state only by who holds the write lock.\<close>

lemma moves_other:
  assumes "locks_of t = locks_of s" and "quiet s t \<or> StateW \<in># h" and "h \<subseteq># locks_of s"
    and "lock_ok s"
  shows "moves h s h t"
proof -
  have "quiet s t" if "StateR \<in># locks_of s - h"
  proof -
    have "StateR \<in># locks_of s" using that by (rule in_diffD)
    then have "StateW \<notin># locks_of s" using assms(4) by (auto simp: lock_ok_def)
    then show ?thesis using assms(2,3) by (auto dest: mset_subset_eqD)
  qed
  then show ?thesis using assms by (simp add: moves_def lock_ok_def)
qed

lemma rel_Ret: "rel X s (Ret a s)"
  by (simp add: rel_def moves_refl)

lemma rel_Panic: "rel X s (Panic p s)"
  by (simp add: rel_def moves_refl)

lemma rel_other:
  "locks_of t = locks_of s \<Longrightarrow> quiet s t \<or> StateW \<in># X \<Longrightarrow> rel X s (Ret a t)"
  "locks_of t = locks_of s \<Longrightarrow> quiet s t \<or> StateW \<in># X \<Longrightarrow> rel X s (Panic p t)"
  by (auto simp: rel_def intro: moves_other dest: mset_subset_eqD)

lemma locks_of_other [simp]:
  "locks_of (s\<lparr>c_world := w\<rparr>) = locks_of s" "locks_of (s\<lparr>c_Handlers := hs\<rparr>) = locks_of s"
  "locks_of (s\<lparr>c_outgoing := co\<rparr>) = locks_of s" "locks_of (s\<lparr>c_incoming := ci\<rparr>) = locks_of s"
  "locks_of (s\<lparr>c_state := st\<rparr>) = locks_of s" "locks_of (s\<lparr>c_shutdown := b\<rparr>) = locks_of s"
  "locks_of (s\<lparr>c_Subscriptions := m\<rparr>) = locks_of s"
  by (simp_all add: locks_of_def)

lemma quiet_other [simp]:
  "quiet s (s\<lparr>c_world := w\<rparr>)" "quiet s (s\<lparr>c_Handlers := hs\<rparr>)"
  "quiet s (s\<lparr>c_outgoing := chan_push m (c_outgoing s)\<rparr>)"
  "quiet s (s\<lparr>c_incoming := chan_push m (c_incoming s)\<rparr>)"
  "quiet s (s\<lparr>c_outgoing := snd (chan_recv z (c_outgoing s))\<rparr>)"
  "quiet s (s\<lparr>c_incoming := snd (chan_recv z (c_incoming s))\<rparr>)"
  "quiet s (s\<lparr>c_Subscriptions := f\<rparr>)"
  by (simp_all add: quiet_def)

text \<open>A critical section: take \<open>l\<close> with \<open>a\<close> once \<open>g\<close> holds, give it back with \<open>u\<close>.\<close>

lemma rel_section:
  assumes a: "\<And>t. g t \<Longrightarrow> locks_of (a t) = add_mset l (locks_of t)" "\<And>t. quiet t (a t)"
      "\<And>t. g t \<Longrightarrow> lock_ok t \<Longrightarrow> lock_ok (a t)"
    and u: "\<And>t. l \<in># locks_of t \<Longrightarrow> locks_of (u t) = locks_of t - {#l#}" "\<And>t. quiet t (u t)"
    and body: "\<And>t. rel (add_mset l X) t (f t)"
  shows "rel X s (andthen (wait_for g (\<lambda>c. Ret () (a c)) s) (\<lambda>_ c. finally_do (f c) u))"
proof -
  have release: "moves (add_mset l h) t h (u t)" if "add_mset l h \<subseteq># locks_of t" for h t
  proof -
    have l: "l \<in># locks_of t" using that by (auto dest: mset_subset_eqD)
    have "locks_of t - {#l#} = locks_of t - add_mset l h + h"
      using that by (auto simp: mset_subset_eq_exists_conv)
    moreover have "lock_ok t \<Longrightarrow> lock_ok (u t)"
      using u(1) [OF l] by (metis in_diffD lock_ok_def)
    ultimately show ?thesis using u l by (simp add: moves_def)
  qed
  have "bal h h h t (finally_do (f (a t)) u)"
    if "X \<subseteq># h" "h \<subseteq># locks_of t" "lock_ok t" "g t" for h t
  proof -
    have take: "moves h t (add_mset l h) (a t)"
      using that(2) a that(3,4) by (auto simp: moves_def)
    have "bal (add_mset l h) (add_mset l h) (add_mset l h) (a t) (f (a t))"
      using body [of "a t"] that a by (simp add: rel_def)
    then have "bal h h (add_mset l h) (a t) (finally_do (f (a t)) u)"
      by (rule bal_finally) (use that a in \<open>auto intro: release\<close>)
    then show ?thesis by (rule bal_trans [OF take])
  qed
  then show ?thesis
    by (auto simp: rel_def wait_for_def intro!: exI moves_refl)
qed

lemma rel_state_section:
  assumes "\<And>t. rel (add_mset StateW X) t (f t)"
  shows "rel X s (andthen (lock_state s) (\<lambda>_ c. finally_do (f c) unlock_state))"
  unfolding lock_state_def
  by (rule rel_section [where l = StateW])
    (auto simp: locks_of_def quiet_def lock_ok_def unlock_state_def assms)

lemma rel_read_section:
  assumes "\<And>t. rel (add_mset StateR X) t (f t)"
  shows "rel X s (andthen (rlock_state s) (\<lambda>_ c. finally_do (f c) runlock_state))"
  unfolding rlock_state_def
proof (rule rel_section [where l = StateR])
  show "locks_of (runlock_state t) = locks_of t - {#StateR#}" if "StateR \<in># locks_of t" for t :: "'a conn"
    using that by (cases "c_rlocks t") (auto simp: locks_of_def runlock_state_def)
qed (auto simp: locks_of_def quiet_def lock_ok_def runlock_state_def assms)

lemma rel_handlers_section:
  assumes "\<And>t. rel (add_mset HandlersL X) t (f t)"
  shows "rel X s (andthen (lock_handlers s) (\<lambda>_ c. finally_do (f c) unlock_handlers))"
  unfolding lock_handlers_def
  by (rule rel_section [where l = HandlersL])
    (auto simp: locks_of_def quiet_def lock_ok_def unlock_handlers_def assms)

subsection \<open>The operations\<close>

lemma rel_sends: "rel X s (send_out m s)" "rel X s (send_in m s)" "rel X s (sleep s)"
  by (auto simp: send_out_def send_in_def sleep_def intro!: rel_wait rel_Ret rel_Panic rel_other)

lemma rel_calls:
  "rel X s (extcall f s)" "rel X s (invoke m arg s)"
  "rel X s (each_handler (calling sel arg E) (do_reaction react) hs s)"
  by (auto simp: extcall_def invoke_def each_handler_calling intro!: rel_other
      split: prod.splits call.splits sum.splits)

lemma rel_each_handler:
  assumes "\<And>h m t. call h = Some m \<Longrightarrow> rel X t (m t)" and "\<And>e t. rel X t (react e t)"
  shows "rel X s (each_handler call react hs s)"
  using assms
  by (induction hs arbitrary: s) (auto intro!: rel_andthen rel_Ret split: option.splits ctl.splits)

lemma rel_getState: "rel X s (getState s)"
  unfolding getState_def by (intro rel_read_section rel_Ret)

lemma rel_setState: "rel X s (setState v s)"
  unfolding setState_def by (intro rel_state_section rel_other) auto

lemma rel_registration: "rel X s (AddHandler h s)" "rel X s (RemoveHandler h s)"
  unfolding AddHandler_def RemoveHandler_def
  by (intro rel_handlers_section; auto intro!: rel_other rel_Panic split: option.splits)+

lemma rel_SendData: "rel X s (SendData m s)"
  by (simp add: SendData_def rel_sends)

lemma rel_errors:
  "rel X s (SendError E err s)" "rel X s (sendConnectionError err s)"
  "rel X s (sendOperationErrors E i errs s)" "rel X s (Subscription_SendData E x d s)"
  unfolding SendError_def sendConnectionError_def sendOperationErrors_def Subscription_SendData_def
  by (auto intro!: rel_andthen rel_getState rel_read_section rel_sends rel_SendData rel_Ret
      split: option.splits)

lemma rel_pongHandler: "rel X s (pongHandler E message s)"
  unfolding pongHandler_def
  by (auto intro!: rel_andthen rel_calls rel_Ret split: option.splits loop_end.splits)

lemma rel_recover: "rel X s (recover E t r s)"
  unfolding recover_def by (auto intro!: rel_andthen rel_calls rel_getState rel_sends rel_Ret)

text \<open>The body of \<open>close\<close> changes the state under the write lock.\<close>

lemma rel_close_body:
  assumes "StateW \<in># X"
  shows "rel X s (close_body E s)"
proof -
  have W: "rel X t (Ret () (t\<lparr>c_state := connStateClosed\<rparr>))" for t
    using assms by (intro rel_other) auto
  have close: "rel X t (close_shutdown t)" "rel X t (close_out t)" "rel X t (close_in t)" for t
    using assms by (auto simp: close_shutdown_def close_out_def close_in_def intro!: rel_other rel_Panic)
  have body: "rel X t (andthen (close_shutdown t) (\<lambda>_ c.
       andthen (each_handler (calling HandleWebsocketClose (0, '''') E)
           (do_reaction until_stopped_or_error) (c_Handlers c) c) (\<lambda>e c.
         case e of
           Returned err \<Rightarrow> Ret (Some err) c
         | _ \<Rightarrow> andthen (sleep c) (\<lambda>_ c. andthen (close_out c) (\<lambda>_ c. andthen (close_in c) (\<lambda>_ c.
             extcall (ws_Close E) c))))))" for t
    by (intro rel_andthen close rel_calls) (auto intro!: rel_andthen close rel_calls rel_sends rel_Ret
        split: loop_end.splits)
  have "rel X s (andthen (Ret () (s\<lparr>c_state := connStateClosed\<rparr>)) (\<lambda>_ t. andthen (close_shutdown t) (\<lambda>_ c.
       andthen (each_handler (calling HandleWebsocketClose (0, '''') E)
           (do_reaction until_stopped_or_error) (c_Handlers c) c) (\<lambda>e c.
         case e of
           Returned err \<Rightarrow> Ret (Some err) c
         | _ \<Rightarrow> andthen (sleep c) (\<lambda>_ c. andthen (close_out c) (\<lambda>_ c. andthen (close_in c) (\<lambda>_ c.
             extcall (ws_Close E) c)))))))"
    by (intro rel_andthen [OF W] body)
  then show ?thesis by (simp add: close_body_def rel_Ret)
qed

lemma rel_close: "rel X s (close E s)"
  unfolding close_def by (intro rel_state_section rel_close_body) simp

lemma rel_Close: "rel X s (Close E s)"
  unfolding Close_def
  by (auto intro!: rel_andthen rel_getState rel_calls rel_close rel_Ret rel_Panic split: option.splits)

lemma rel_before:
  assumes "rel X t m" and "locks_of t = locks_of s" and "quiet s t"
  shows "rel X s m"
proof -
  have "bal h h h s m" if h: "X \<subseteq># h" "h \<subseteq># locks_of s" "lock_ok s" for h
  proof -
    have "bal h h h t m" using assms h by (simp add: rel_def lock_ok_def)
    moreover have "moves h s h t" using assms h by (intro moves_other) auto
    ultimately show ?thesis by (rule bal_trans [rotated])
  qed
  then show ?thesis by (simp add: rel_def)
qed

lemma rel_connection_start_errors: "rel X s (connection_start_errors E start hs errs s)"
proof (induction hs arbitrary: errs s)
  case (Cons h hs)
  then show ?case
    by (auto simp: calling_def intro!: rel_andthen rel_calls split: option.splits)
qed (simp add: rel_Ret)

lemma rel_register:
  "rel X s (andthen (each_handler (calling HandleSubscriptionStart x E) (do_reaction react)
     (c_Handlers s) (addSubscription x s)) (\<lambda>_ c. Ret () c))"
  by (rule rel_before [where t = "addSubscription x s"])
    (auto simp: addSubscription_def intro!: rel_andthen rel_calls rel_Ret)

lemma rel_gqlStart: "rel X s (gqlStart E start s)"
proof -
  have [simp]: "c_Handlers (addSubscription x c) = c_Handlers c" for x and c :: "'a conn"
    by (simp add: addSubscription_def)
  show ?thesis
    unfolding gqlStart_def Let_def
    by (rule rel_andthen [OF rel_connection_start_errors])
      (auto intro: rel_andthen rel_errors rel_Ret rel_register split: sum.split)
qed

lemma rel_gqlStop: "rel X s (gqlStop E stop s)"
  unfolding gqlStop_def by (auto intro!: rel_andthen rel_calls rel_Ret split: option.splits)

lemma rel_init_reaction: "rel X s (init_reaction err s)"
  unfolding init_reaction_def
  by (auto intro!: rel_andthen rel_errors rel_Ret rel_Panic split: option.splits goerr.splits)

lemma rel_process:
  "rel X s (process_init E m s)" "rel X s (process_terminate E s)" "rel X s (process_start E m s)"
  "rel X s (process_stop E m s)"
proof -
  have c: "rel Y t (f t)" if "calling sel arg E h = Some f" for Y sel arg h f and t :: "'a conn"
    using that by (auto simp: calling_def rel_calls)
  show "rel X s (process_init E m s)"
    unfolding process_init_def lockHandlers_def
    by (intro rel_andthen rel_handlers_section rel_each_handler rel_init_reaction)
      (auto intro: c rel_andthen rel_sends rel_setState split: loop_end.splits)
  show "rel X s (process_terminate E s)"
    unfolding process_terminate_def by (intro rel_andthen rel_calls rel_sends)
  show "rel X s (process_start E m s)"
    unfolding process_start_def
    by (auto intro!: rel_andthen rel_getState rel_errors rel_gqlStart rel_Ret rel_Panic
        split: sum.splits)
  show "rel X s (process_stop E m s)"
    unfolding process_stop_def
    by (auto intro!: rel_andthen rel_close rel_gqlStop rel_Ret rel_Panic split: sum.splits)
qed

lemma rel_messages:
  "rel X s (processIncomeMessage E p s)" "rel X s (processOutgoingMessage E p s)"
  "rel X s (send_ping E s)"
  unfolding processIncomeMessage_def processOutgoingMessage_def send_ping_def
  by (auto intro!: rel_process rel_andthen rel_calls rel_Ret rel_Panic split: option.splits)

lemma rel_select_body: "rel X s (select_body E sel s)"
proof (cases sel)
  case SelIncoming
  then show ?thesis
    unfolding select_body_def
    by (auto simp: Let_def split_beta intro!: rel_Ret rel_other
        rel_before [where t = "s\<lparr>c_incoming := snd (chan_recv NilMsg (c_incoming s))\<rparr>"]
        rel_andthen rel_messages)
next
  case SelOutgoing
  then show ?thesis
    unfolding select_body_def
    by (auto simp: split_beta intro!: rel_Ret rel_andthen rel_messages
        rel_before [where t = "s\<lparr>c_outgoing := snd (chan_recv NilMsg (c_outgoing s))\<rparr>"])
qed (auto simp: select_body_def intro!: rel_Ret rel_messages)

lemma rel_processMessages:
  "rel X s (processMessages_start E s)" "rel X s (processMessages_body E sel s)"
  unfolding processMessages_start_def processMessages_body_def
  by (auto intro!: rel_andthen rel_recover rel_Ret rel_wait rel_select_body)

lemma rel_exits: "rel X s (processMessages_exit E po s)" "rel X s (readPump_exit E po s)"
  unfolding processMessages_exit_def readPump_exit_def deferred_close_def
  by (auto intro!: rel_andthen rel_catch rel_close rel_recover rel_Ret rel_Panic split: option.splits)

lemma rel_ReadJSON: "rel X s (ReadJSON E pongs r s)"
proof (induction pongs arbitrary: s)
  case Nil
  then show ?case
    by (cases r) (auto simp: closeHandler_def intro!: rel_wait rel_andthen rel_close rel_Ret)
next
  case (Cons p pongs)
  then show ?case by (auto intro!: rel_wait rel_andthen rel_pongHandler rel_Ret split: option.splits)
qed

lemma rel_readPump: "rel X s (readPump_start E s)" "rel X s (readPump_body E pongs r s)"
proof -
  have q: "rel X t (queue_read x t)" for x and t :: "'a conn"
    unfolding queue_read_def
    by (auto intro!: rel_andthen rel_sends rel_Ret rel_Panic
        split: sum.splits option.splits goerr.splits)
  show "rel X s (readPump_start E s)" "rel X s (readPump_body E pongs r s)"
    unfolding readPump_start_def readPump_body_def
    by (auto intro!: rel_andthen rel_setState rel_calls rel_Ret rel_getState rel_wait rel_ReadJSON q
        split: option.splits)
qed

subsection \<open>The goroutines of a connection\<close>

text \<open>A goroutine that does not wait holds nothing.\<close>

fun thread_locks :: "'w goroutine \<Rightarrow> lock multiset \<Rightarrow> bool" where
  "thread_locks (Suspended ph g k) h =
     (\<forall>t. h \<subseteq># locks_of t \<longrightarrow> lock_ok t \<longrightarrow> g t \<longrightarrow> bal {#} {#} h t (k t))"
| "thread_locks g h = (h = {#})"

fun waiting :: "'w goroutine \<Rightarrow> bool" where
  "waiting (Suspended ph g k) = True"
| "waiting g = False"

lemma not_waiting: "\<not> waiting g \<Longrightarrow> thread_locks g h \<longleftrightarrow> h = {#}"
  by (cases g) auto

lemma settle_locks:
  assumes "bal {#} {#} h s m" and "settle ph m = (g, c)"
  shows "\<exists>h'. moves h s h' c \<and> thread_locks g h'"
  using assms by (induction ph m rule: settle.induct) (auto split: if_splits)

lemma settle_rel:
  assumes "rel {#} s m" and "lock_ok s" and "settle ph m = (g, c)"
  shows "\<exists>h'. moves {#} s h' c \<and> thread_locks g h'"
  using assms by (intro settle_locks [where m = m]) (auto simp: rel_def)

text \<open>The locks held are those of the goroutines together.\<close>

definition lock_inv :: "'w sys \<Rightarrow> lock multiset \<Rightarrow> lock multiset \<Rightarrow> lock multiset list \<Rightarrow> bool" where
  "lock_inv s hr hp hs \<longleftrightarrow> lock_ok (con s) \<and> thread_locks (rd s) hr \<and> thread_locks (pr s) hp \<and>
     list_all2 thread_locks (cls s) hs \<and> locks_of (con s) = hr + hp + sum_list hs"

lemma code_rel:
  "rel {#} c (reader_code E ph po pongs r c)" "rel {#} c (processor_code E ph po sel c)"
  "rel {#} c (api_code E a c)"
proof -
  show "rel {#} c (reader_code E ph po pongs r c)"
    by (cases ph) (auto simp: reader_code_def intro!: rel_readPump rel_andthen rel_exits rel_Ret)
  show "rel {#} c (processor_code E ph po sel c)"
    by (cases ph) (auto simp: processor_code_def intro!: rel_processMessages rel_andthen rel_exits rel_Ret)
  show "rel {#} c (api_code E a c)"
    by (cases a) (auto intro!: rel_andthen rel_Ret rel_Close rel_SendData rel_errors rel_registration)
qed

text \<open>What one goroutine does, seen by the others, who hold \<open>F\<close>.\<close>

lemma moves_with:
  assumes "moves h s h' t" and "locks_of s = h + F"
  shows "locks_of t = h' + F \<and> (StateR \<in># F \<longrightarrow> quiet s t)"
  using assms by (auto simp: moves_def)

lemma sum_list_update_mset:
  fixes hs :: "'a multiset list"
  shows "i < length hs \<Longrightarrow> sum_list (hs[i := h]) + hs ! i = sum_list hs + h"
proof (induction hs arbitrary: i)
  case (Cons x hs)
  then show ?case by (cases i) (auto simp: ac_simps)
qed simp

lemma reader_moves:
  assumes "lock_inv s hr hp hs" and "moves hr (con s) h' c" and "thread_locks g h'"
  shows "lock_inv (s\<lparr>con := c, rd := g\<rparr>) h' hp hs \<and> (StateR \<in># hp \<longrightarrow> quiet (con s) c)"
  using assms moves_with [OF assms(2), of "hp + sum_list hs"] moves_ok [OF assms(2)]
  by (auto simp: lock_inv_def ac_simps)

lemma processor_moves:
  assumes "lock_inv s hr hp hs" and "moves hp (con s) h' c" and "thread_locks g h'"
  shows "lock_inv (s\<lparr>con := c, pr := g\<rparr>) hr h' hs"
  using assms moves_with [OF assms(2), of "hr + sum_list hs"] moves_ok [OF assms(2)]
  by (auto simp: lock_inv_def ac_simps)

lemma caller_starts:
  assumes "lock_inv s hr hp hs" and "moves {#} (con s) h' c" and "thread_locks g h'"
  shows "lock_inv (s\<lparr>con := c, cls := cls s @ [g]\<rparr>) hr hp (hs @ [h']) \<and>
    (StateR \<in># hp \<longrightarrow> quiet (con s) c)"
  using assms moves_with [OF assms(2), of "hr + hp + sum_list hs"] moves_ok [OF assms(2)]
  by (auto simp: lock_inv_def ac_simps list_all2_appendI)

lemma caller_share:
  assumes "lock_inv s hr hp hs" and "i < length (cls s)"
  shows "length hs = length (cls s)"
    and "locks_of (con s) = hs ! i + (hr + hp + sum_list (hs[i := {#}]))"
proof -
  show len: "length hs = length (cls s)"
    using assms(1) by (auto simp: lock_inv_def dest: list_all2_lengthD)
  then have "sum_list (hs[i := {#}]) + hs ! i = sum_list hs"
    using sum_list_update_mset [of i hs "{#}"] assms(2) by simp
  then show "locks_of (con s) = hs ! i + (hr + hp + sum_list (hs[i := {#}]))"
    using assms(1) by (simp add: lock_inv_def ac_simps)
qed

lemma caller_moves:
  assumes inv: "lock_inv s hr hp hs" and i: "i < length (cls s)"
    and m: "moves (hs ! i) (con s) h' c" and "thread_locks g h'"
  shows "lock_inv (s\<lparr>con := c, cls := (cls s)[i := g]\<rparr>) hr hp (hs[i := h']) \<and>
    (StateR \<in># hp \<longrightarrow> quiet (con s) c)"
proof -
  note len = caller_share(1) [OF inv i]
  from moves_with [OF m caller_share(2) [OF inv i]] have
    c: "locks_of c = h' + (hr + hp + sum_list (hs[i := {#}]))" "StateR \<in># hp \<longrightarrow> quiet (con s) c"
    by auto
  have "sum_list (hs[i := h']) = sum_list (hs[i := {#}]) + h'"
    using sum_list_update_mset [of i "hs[i := {#}]" h'] i len by simp
  with c inv assms moves_ok [OF m] show ?thesis
    by (auto simp: lock_inv_def ac_simps intro: list_all2_update_cong)
qed

text \<open>
  A step keeps the invariant; a step of another goroutine leaves what the processing goroutine
  holds, and while that includes the read lock, it changes nothing of \<open>quiet\<close>.
\<close>

lemma lock_inv_step:
  assumes "sys_step E s ev t" and "lock_inv s hr hp hs"
  shows "\<exists>hr' hp' hs'. lock_inv t hr' hp' hs' \<and>
    (pr t = pr s \<and> hp' = hp \<and> (StateR \<in># hp \<longrightarrow> quiet (con s) (con t)) \<or>
     (\<exists>sel. ev = ProcGo sel) \<or> ev = ProcResume)"
  using assms
proof (induction rule: sys_step.induct)
  case (reader_go s ph po pongs r g c)
  then have "hr = {#}" "lock_ok (con s)" by (auto simp: lock_inv_def)
  with reader_go obtain h' where "moves hr (con s) h' c" "thread_locks g h'"
    using settle_rel [OF code_rel(1)] by blast
  with reader_go reader_moves show ?case by fastforce
next
  case (reader_resume s ph guard k g c)
  then have "bal {#} {#} hr (con s) (k (con s))" by (auto simp: lock_inv_def)
  with reader_resume obtain h' where "moves hr (con s) h' c" "thread_locks g h'"
    using settle_locks by blast
  with reader_resume reader_moves show ?case by fastforce
next
  case (proc_go s ph po sel g c)
  then have "hp = {#}" "lock_ok (con s)" by (auto simp: lock_inv_def)
  with proc_go obtain h' where "moves hp (con s) h' c" "thread_locks g h'"
    using settle_rel [OF code_rel(2)] by blast
  with proc_go processor_moves show ?case by blast
next
  case (proc_resume s ph guard k g c)
  then have "bal {#} {#} hp (con s) (k (con s))" by (auto simp: lock_inv_def)
  with proc_resume obtain h' where "moves hp (con s) h' c" "thread_locks g h'"
    using settle_locks by blast
  with proc_resume processor_moves show ?case by blast
next
  case (call_go s a g c)
  then have "lock_ok (con s)" by (auto simp: lock_inv_def)
  with call_go obtain h' where "moves {#} (con s) h' c" "thread_locks g h'"
    using settle_rel [OF code_rel(3)] by blast
  with call_go caller_starts show ?case by fastforce
next
  case (call_resume s i ph guard k g c)
  then have "thread_locks (Suspended ph guard k) (hs ! i)"
    by (metis lock_inv_def list_all2_nthD)
  moreover have "hs ! i \<subseteq># locks_of (con s)" "lock_ok (con s)"
    using call_resume caller_share(2) [of s hr hp hs i] by (auto simp: lock_inv_def)
  ultimately have "bal {#} {#} (hs ! i) (con s) (k (con s))"
    using call_resume by auto
  with call_resume obtain h' where "moves (hs ! i) (con s) h' c" "thread_locks g h'"
    using settle_locks by blast
  with call_resume caller_moves show ?case by fastforce
qed

lemma lock_inv_reaches:
  assumes "reaches E s t" and "lock_inv s hr hp hs"
  shows "\<exists>hr' hp' hs'. lock_inv t hr' hp' hs'"
  using assms
proof (induction rule: reaches.induct)
  case (reaches_step s t ev u)
  then obtain hr' hp' hs' where "lock_inv t hr' hp' hs'" by blast
  from lock_inv_step [OF reaches_step(2) this] show ?case by blast
qed blast

lemma lock_inv_start: "lock_inv (start_sys (snd (NewConn schema config n w))) {#} {#} []"
  by (simp add: lock_inv_def start_sys_def NewConn_def lock_ok_def locks_of_def)

lemma reachable_locks: "reachable E s \<Longrightarrow> \<exists>hr hp hs. lock_inv s hr hp hs"
  unfolding reachable_def by (blast intro: lock_inv_reaches [OF _ lock_inv_start])

lemma no_waiting_callers:
  "list_all2 thread_locks gs hs \<Longrightarrow> \<forall>g \<in> set gs. \<not> waiting g \<Longrightarrow> sum_list hs = {#}"
  by (induction rule: list_all2_induct) (auto simp: not_waiting)

text \<open>
  C8: in every interleaving the write lock of the state excludes all read locks, and every
  lock that was taken is given back, on every path of every operation, panics included: as
  soon as no goroutine is inside an operation that waits, no lock is held.
\<close>

theorem locks_exclude_and_are_released:
  assumes "reachable E s"
  shows "(c_wlock (con s) \<longrightarrow> c_rlocks (con s) = 0) \<and>
    (\<not> waiting (rd s) \<and> \<not> waiting (pr s) \<and> (\<forall>g \<in> set (cls s). \<not> waiting g) \<longrightarrow> idle (con s))"
proof -
  obtain hr hp hs where inv: "lock_inv s hr hp hs" using reachable_locks [OF assms] by blast
  then have "lock_ok (con s)" by (simp add: lock_inv_def)
  moreover have "idle (con s)"
    if "\<not> waiting (rd s)" "\<not> waiting (pr s)" "\<forall>g \<in> set (cls s). \<not> waiting g"
    using inv that no_waiting_callers [of "cls s" hs]
    by (simp add: lock_inv_def not_waiting flip: locks_of_empty)
  ultimately show ?thesis by (auto simp: lock_ok_def)
qed

theorem locks_exclude_and_are_released_witness:
  "idle (con (the (fire_all demo one_subscription new_sys)))"
proof -
  have quiet: "map_option (\<lambda>s. waiting (rd s) \<or> waiting (pr s) \<or> list_ex waiting (cls s))
     (fire_all demo one_subscription new_sys) = Some False"
    by code_simp
  then obtain s where s: "fire_all demo one_subscription new_sys = Some s" by auto
  with quiet have "\<not> waiting (rd s)" "\<not> waiting (pr s)" "\<forall>g \<in> set (cls s). \<not> waiting g"
    by (auto simp: list_ex_iff)
  then show ?thesis
    using locks_exclude_and_are_released [OF reachable_fire [OF s]] by (simp add: s)
qed

subsection \<open>A deadlock\<close>

text \<open>
  \<open>sendOperationErrors\<close> and \<open>sendConnectionError\<close> keep the read lock while they wait for room in
  the outgoing queue; the goroutine that runs them is the one that empties it.
\<close>

lemma full_out_stays:
  assumes "env_step c d" and "conn_ok d" and "quiet c d" and "\<not> can_send (c_outgoing c)" and "conn_ok c"
  shows "\<not> can_send (c_outgoing d)"
proof -
  have "length (chan_history (c_outgoing c)) \<le> length (chan_history (c_outgoing d))"
    using assms(1) by (auto simp: env_step_def step_ok_def chan_step_def dest: prefix_length_le)
  moreover have "length (chan_taken (c_outgoing d)) = length (chan_taken (c_outgoing c))"
    using assms(1) by (simp add: env_step_def)
  ultimately show ?thesis
    using assms by (auto simp: can_send_def chan_history_def conn_ok_def quiet_def)
qed

lemma deadlock_step:
  assumes "sys_step E s ev t" and "sys_ok s" and "lock_inv s hr hp hs" and "StateR \<in># hp"
    and "pr s = Suspended ph (\<lambda>c. can_send (c_outgoing c)) k" and "\<not> can_send (c_outgoing (con s))"
  shows "pr t = pr s \<and> quiet (con s) (con t) \<and> \<not> can_send (c_outgoing (con t)) \<and>
    chan_taken (c_outgoing (con t)) = chan_taken (c_outgoing (con s)) \<and>
    (\<exists>hr' hs'. lock_inv t hr' hp hs')"
proof -
  have not_pr: "\<not> ((\<exists>sel. ev = ProcGo sel) \<or> ev = ProcResume)"
    using assms(1,5,6) by (auto elim: proc_go_cases proc_resume_cases)
  then have e: "env_step (con s) (con t)" "pr t = pr s"
    using sys_step_env [OF assms(1,2)] by auto
  obtain hr' hs' where l: "lock_inv t hr' hp hs'" "quiet (con s) (con t)"
    using lock_inv_step [OF assms(1,3)] not_pr assms(4) by blast
  have "conn_ok (con s)" "conn_ok (con t)"
    using assms(2) sys_ok_step [OF assms(1,2)] by (simp_all add: sys_ok_def)
  with full_out_stays [OF e(1) _ l(2) assms(6)] e l show ?thesis
    by (auto simp: env_step_def)
qed

lemma deadlock_reaches:
  assumes "reaches E s t" and "sys_ok s" and "lock_inv s hr hp hs" and "StateR \<in># hp"
    and "pr s = Suspended ph (\<lambda>c. can_send (c_outgoing c)) k" and "\<not> can_send (c_outgoing (con s))"
  shows "pr t = pr s \<and> quiet (con s) (con t) \<and> \<not> can_send (c_outgoing (con t)) \<and>
    chan_taken (c_outgoing (con t)) = chan_taken (c_outgoing (con s)) \<and>
    (\<exists>hr' hs'. lock_inv t hr' hp hs') \<and> sys_ok t"
  using assms
proof (induction rule: reaches.induct)
  case (reaches_step s t ev u)
  then obtain hr' hs' where t: "pr t = pr s" "quiet (con s) (con t)" "\<not> can_send (c_outgoing (con t))"
    "chan_taken (c_outgoing (con t)) = chan_taken (c_outgoing (con s))" "lock_inv t hr' hp hs'" "sys_ok t"
    by blast
  with deadlock_step [OF reaches_step(2) t(6,5) reaches_step.prems(3)] reaches_step.prems(4)
    sys_ok_step [OF reaches_step(2) t(6)] quiet_trans
  show ?case by fastforce
qed auto

text \<open>
  C33: when the processing goroutine waits for room in the full outgoing queue while the read
  lock is held, and no other goroutine waits, the connection is dead for ever, whatever
  anybody does: the goroutine never goes on, the read lock is never given back, nothing is
  sent to the client any more, and no \<open>Close\<close> and no failing read can close the connection.
\<close>

theorem full_queue_with_read_lock_is_a_deadlock:
  assumes "reachable E s" and "pr s = Suspended ph (\<lambda>c. can_send (c_outgoing c)) k"
    and "\<not> can_send (c_outgoing (con s))" and "c_rlocks (con s) > 0"
    and "\<not> waiting (rd s)" and "\<forall>g \<in> set (cls s). \<not> waiting g" and "reaches E s t"
  shows "pr t = pr s \<and> c_rlocks (con t) > 0 \<and> c_state (con t) = c_state (con s) \<and>
    chan_taken (c_outgoing (con t)) = chan_taken (c_outgoing (con s)) \<and>
    \<not> chan_closed (c_outgoing (con t)) \<and> c_shutdown (con t) = c_shutdown (con s)"
proof -
  obtain hr hp hs where inv: "lock_inv s hr hp hs" using reachable_locks [OF assms(1)] by blast
  have "locks_of (con s) = hp"
    using inv assms(5,6) no_waiting_callers [of "cls s" hs] by (simp add: lock_inv_def not_waiting)
  then have R: "StateR \<in># hp" using assms(4) by auto
  obtain hr' hs' where t: "pr t = pr s" "quiet (con s) (con t)" "\<not> can_send (c_outgoing (con t))"
    "chan_taken (c_outgoing (con t)) = chan_taken (c_outgoing (con s))" "lock_inv t hr' hp hs'"
    using deadlock_reaches [OF assms(7) reachable_ok [OF assms(1)] inv R assms(2,3)] by blast
  have "StateR \<in># locks_of (con t)" using t(5) R by (simp add: lock_inv_def)
  with t show ?thesis by (auto simp: quiet_def can_send_def)
qed

text \<open>
  Nine messages are queued beside the acknowledgement, then a \<open>start\<close> arrives whose payload
  cannot be decoded.  The JSON library can write its own errors.
\<close>

definition writing_errors :: "string list env" where
  "writing_errors = demo\<lparr>other_errors := (\<lambda>e. Some (JObj []))\<rparr>"

definition undecodable_start :: json where
  "undecodable_start = JObj [(''id'', JStr ''1''), (''type'', JStr ''start''), (''payload'', JStr ''q'')]"

definition deadlocking :: "event list" where
  "deadlocking = reader_starts @ reads init_frame @ reads undecodable_start @
     ProcGo SelPing # ProcGo SelIncoming # replicate 4 ProcResume @
     concat (map (\<lambda>i. [CallGo (CallSendData (Msg zero_OperationMessage)), CallResume i]) [0..<9]) @
     ProcGo SelIncoming # replicate 3 ProcResume"

lemma deadlocking_run:
  "map_option (\<lambda>s. (can_send (c_outgoing (con s)), c_rlocks (con s),
       waiting (rd s) \<or> list_ex waiting (cls s), c_state (con s),
       case pr s of Suspended ph g k \<Rightarrow> P g | _ \<Rightarrow> False))
     (fire_all writing_errors deadlocking new_sys) =
   Some (False, 1, False, connStateEstablished, P (\<lambda>c. can_send (c_outgoing c)))"
  by code_simp

theorem full_queue_with_read_lock_is_a_deadlock_witness:
  "\<exists>s. reachable writing_errors s \<and> (\<forall>t. reaches writing_errors s t \<longrightarrow>
     pr t = pr s \<and> c_rlocks (con t) > 0 \<and> c_state (con t) = connStateEstablished)"
proof -
  let ?g = "\<lambda>c. can_send (c_outgoing c)"
  obtain s ph k where s: "fire_all writing_errors deadlocking new_sys = Some s"
    and full: "\<not> can_send (c_outgoing (con s))" and p: "pr s = Suspended ph ?g k"
    and r: "c_rlocks (con s) > 0" and st: "c_state (con s) = connStateEstablished"
    and nw: "\<not> waiting (rd s)" "\<forall>g \<in> set (cls s). \<not> waiting g"
    using deadlocking_run [of "\<lambda>g. g = ?g"]
    by (auto simp: map_option_case list_ex_iff split: option.splits goroutine.splits)
  show ?thesis
    using full_queue_with_read_lock_is_a_deadlock [OF reachable_fire [OF s] p full r nw]
      reachable_fire [OF s] st
    by metis
qed

end
