(* ===== verification/HttpUpgrade.thy ===== *)
theory HttpUpgrade
  imports Connection
begin

text \<open>
  From an HTTP request to a connection (\<open>http_handler.go\<close>, \<open>upgrader.go\<close>).  The interface
  \<open>WebSocketUpgrader\<close> is the locale \<open>subprotocol_list\<close>, which \<open>gorillaUpgrader\<close> interprets.
\<close>

subsection \<open>The interface\<close>

text \<open>
  The server's protocol of choice among those a client offers is the first of its own list;
  \<open>AddSubprotocol\<close> puts a protocol last.
\<close>

definition preferred :: "string list \<Rightarrow> string list \<Rightarrow> string option" where
  "preferred supported offered = find (\<lambda>p. p \<in> set offered) supported"

lemma preferred_simps [simp]:
  "preferred [] os = None"
  "preferred (p # ps) os = (if p \<in> set os then Some p else preferred ps os)"
  by (simp_all add: preferred_def)

lemma preferred_append:
  "preferred (ps @ qs) os = (case preferred ps os of None \<Rightarrow> preferred qs os | Some p \<Rightarrow> Some p)"
  by (induction ps) (auto simp: preferred_def)

lemma preferred_last:
  "preferred (ps @ [p]) os = Some p \<longleftrightarrow>
    p \<in> set os \<and> set (takeWhile (\<lambda>q. q \<noteq> p) ps) \<inter> set os = {}"
  by (induction ps) (auto simp: preferred_def)

locale subprotocol_list =
  fixes add :: "string \<Rightarrow> 'u \<Rightarrow> 'u" and supported :: "'u \<Rightarrow> string list"
  assumes supported_add: "supported (add p u) = supported u @ [p]"
begin

lemma chosen_after_add:
  "preferred (supported (add p u)) offered = Some p \<longleftrightarrow>
    p \<in> set offered \<and> set (takeWhile (\<lambda>q. q \<noteq> p) (supported u)) \<inter> set offered = {}"
  by (simp add: supported_add preferred_last)

lemma add_again: "preferred (supported (add p (add p u))) offered = preferred (supported (add p u)) offered"
  by (simp add: supported_add preferred_append split: option.splits)

end

subsection \<open>\<open>gorillaUpgrader\<close>\<close>

text \<open>The field of a \<open>websocket.Upgrader\<close> the code uses; \<open>None\<close> is the nil slice.\<close>

record websocket_Upgrader =
  Subprotocols :: "string list option"

record gorillaUpgrader =
  upgrader :: websocket_Upgrader

definition NewUpgrader :: "websocket_Upgrader \<Rightarrow> gorillaUpgrader" where
  "NewUpgrader u = \<lparr>upgrader = u\<rparr>"

definition AddSubprotocol :: "string \<Rightarrow> gorillaUpgrader \<Rightarrow> gorillaUpgrader" where
  "AddSubprotocol protocol g =
    (let u = upgrader g;
         u = (if Subprotocols u = None then u\<lparr>Subprotocols := Some []\<rparr> else u)
     in g\<lparr>upgrader := u\<lparr>Subprotocols := Some (the (Subprotocols u) @ [protocol])\<rparr>\<rparr>)"

definition listed :: "gorillaUpgrader \<Rightarrow> string list" where
  "listed g = (case Subprotocols (upgrader g) of None \<Rightarrow> [] | Some ps \<Rightarrow> ps)"

interpretation gorilla: subprotocol_list AddSubprotocol listed
  by unfold_locales (auto simp: AddSubprotocol_def listed_def Let_def)

text \<open>
  The library, on the outside state \<open>'w\<close>: \<open>Upgrader.Upgrade\<close> with a request and the headers of
  the response, the protocol of a websocket, and closing a websocket.
\<close>

record ('r, 'ws, 'w) http_lib =
  lib_Upgrade :: "websocket_Upgrader \<Rightarrow> 'r \<Rightarrow> (string \<times> string list) list option \<Rightarrow> 'w \<Rightarrow>
    (goerr + 'ws) \<times> 'w"
  ws_Subprotocol :: "'ws \<Rightarrow> string"
  socket_Close :: "'ws \<Rightarrow> 'w \<Rightarrow> goerr option \<times> 'w"

definition Upgrade ::
  "('r, 'ws, 'w) http_lib \<Rightarrow> gorillaUpgrader \<Rightarrow> 'r \<Rightarrow> 'w \<Rightarrow> (goerr + 'ws) \<times> 'w" where
  "Upgrade L g r w = lib_Upgrade L (upgrader g) r None w"

subsection \<open>\<open>NewHttpHandler\<close>\<close>

text \<open>
  The upgraders live in a store, indexed as in \<open>HandlerConfig\<close>.  What is returned is the
  upgrader and the schema the function for the requests has captured.
\<close>

definition NewHttpHandler ::
  "HandlerConfig \<Rightarrow> (nat \<Rightarrow> gorillaUpgrader) \<Rightarrow> (nat \<times> nat) call \<times> (nat \<Rightarrow> gorillaUpgrader)" where
  "NewHttpHandler handlerConfig us = (case hc_Upgrader handlerConfig of
       None \<Rightarrow> (Raises (PErr ErrUpgraderRequired), us)
     | Some a \<Rightarrow> (case hc_Schema handlerConfig of
           None \<Rightarrow> (Raises (PErr ErrSchemaRequired), us)
         | Some schema \<Rightarrow>
             (Returns (a, schema), us(a := AddSubprotocol ''graphql-ws'' (us a)))))"

text \<open>
  Serving a request: the arguments of the user's \<open>handler\<close>, the counter of connections, and
  the outside state.
\<close>

definition serve ::
  "('r, 'ws, 'w) http_lib \<Rightarrow> gorillaUpgrader \<Rightarrow> nat \<Rightarrow> config_values \<Rightarrow> 'r \<Rightarrow> 64 word \<Rightarrow> 'w \<Rightarrow>
    ('w conn option \<times> goerr option) \<times> 64 word \<times> 'w" where
  "serve L g schema config r count w = (case Upgrade L g r w of
       (Inl err, w) \<Rightarrow> ((None, Some err), count, w)
     | (Inr ws, w) \<Rightarrow>
         if ws_Subprotocol L ws \<noteq> ''graphql-ws'' then
           (case socket_Close L ws w of (err, w) \<Rightarrow>
              ((None, Some ErrClientDoesNotImplementGraphqlWS), count, w))
         else (case NewConn (Some schema) config count w of (count, c) \<Rightarrow>
              ((Some c, None), count, w)))"

subsection \<open>Properties\<close>

text \<open>
  \<open>NewHttpHandler\<close> panics without an upgrader, and then without a schema, leaving every
  upgrader alone; otherwise the protocol \<open>graphql-ws\<close> is put last in the list of the given
  upgrader, keeping those that were there, and no other upgrader changes.
\<close>

lemma NewHttpHandler_spec:
  "NewHttpHandler \<lparr>hc_Upgrader = None, hc_Schema = s\<rparr> us = (Raises (PErr ErrUpgraderRequired), us) \<and>
   NewHttpHandler \<lparr>hc_Upgrader = Some a, hc_Schema = None\<rparr> us = (Raises (PErr ErrSchemaRequired), us) \<and>
   fst (NewHttpHandler \<lparr>hc_Upgrader = Some a, hc_Schema = Some n\<rparr> us) = Returns (a, n) \<and>
   listed (snd (NewHttpHandler \<lparr>hc_Upgrader = Some a, hc_Schema = Some n\<rparr> us) b) =
     (if b = a then listed (us a) @ [''graphql-ws''] else listed (us b))"
  by (simp add: NewHttpHandler_def gorilla.supported_add)

text \<open>
  What the documentation of the library says of \<open>Upgrade\<close>: it selects the first protocol of
  the upgrader's list that the client requests; without a match, or with a nil list, none.
\<close>

definition negotiates :: "('r, 'ws, 'w) http_lib \<Rightarrow> ('r \<Rightarrow> string list) \<Rightarrow> bool" where
  "negotiates L offered \<longleftrightarrow> (\<forall>u r w ws w'. lib_Upgrade L u r None w = (Inr ws, w') \<longrightarrow>
     ws_Subprotocol L ws = (case Subprotocols u of None \<Rightarrow> ''''
       | Some ps \<Rightarrow> (case preferred ps (offered r) of None \<Rightarrow> '''' | Some p \<Rightarrow> p)))"

lemma negotiated:
  assumes "negotiates L offered" and "Upgrade L (AddSubprotocol p g) r w = (Inr ws, w')"
    and "p \<noteq> ''''"
  shows "ws_Subprotocol L ws = p \<longleftrightarrow> preferred (listed (AddSubprotocol p g)) (offered r) = Some p"
proof -
  have "Subprotocols (upgrader (AddSubprotocol p g)) = Some (listed (AddSubprotocol p g))"
    by (simp add: AddSubprotocol_def listed_def Let_def)
  then have "ws_Subprotocol L ws = (case preferred (listed (AddSubprotocol p g)) (offered r) of
      None \<Rightarrow> '''' | Some q \<Rightarrow> q)"
    using assms(1,2) unfolding negotiates_def Upgrade_def by fastforce
  with assms(3) show ?thesis by (auto split: option.splits)
qed

lemma serve_outcome:
  assumes "negotiates L offered"
    and "NewHttpHandler hc us = (Returns (a, schema), us')"
    and "Upgrade L (us' a) r w = (Inr ws, w')"
  shows "serve L (us' a) schema config r count w =
    (if ''graphql-ws'' \<in> set (offered r) \<and>
        set (takeWhile (\<lambda>p. p \<noteq> ''graphql-ws'') (listed (us a))) \<inter> set (offered r) = {}
     then ((Some (snd (NewConn (Some schema) config count w')), None), count + 1, w')
     else ((None, Some ErrClientDoesNotImplementGraphqlWS), count, snd (socket_Close L ws w')))"
proof -
  have u: "us' a = AddSubprotocol ''graphql-ws'' (us a)"
    using assms(2) by (auto simp: NewHttpHandler_def split: option.splits)
  have "ws_Subprotocol L ws = ''graphql-ws'' \<longleftrightarrow>
      preferred (listed (AddSubprotocol ''graphql-ws'' (us a))) (offered r) = Some ''graphql-ws''"
    using negotiated [OF assms(1)] assms(3) u by simp
  then show ?thesis
    using assms(3)
    by (simp only: gorilla.chosen_after_add) (simp add: serve_def split_beta NewConn_def)
qed

text \<open>
  C26: a request that could be upgraded becomes a connection, new and not yet started, exactly
  if the client offers \<open>graphql-ws\<close> and none of the protocols the upgrader was given before
  (up to a first \<open>graphql-ws\<close>); otherwise the websocket is closed and the user's handler gets
  \<open>ErrClientDoesNotImplementGraphqlWS\<close>, even if the client does offer \<open>graphql-ws\<close>.
\<close>

theorem request_becomes_connection:
  assumes "negotiates L offered"
    and "NewHttpHandler hc us = (Returns (a, schema), us')"
    and "Upgrade L (us' a) r w = (Inr ws, w')"
  shows "serve L (us' a) schema config r count w =
    (if ''graphql-ws'' \<in> set (offered r) \<and>
        set (takeWhile (\<lambda>p. p \<noteq> ''graphql-ws'') (listed (us a))) \<inter> set (offered r) = {}
     then ((Some (snd (NewConn (Some schema) config count w')), None), count + 1, w')
     else ((None, Some ErrClientDoesNotImplementGraphqlWS), count, snd (socket_Close L ws w')))"
  using assms by (rule serve_outcome)

text \<open>A library that negotiates: a websocket is its protocol, a request the offered list.\<close>

definition demo_lib :: "(string list, string, string list) http_lib" where
  "demo_lib = \<lparr>lib_Upgrade = (\<lambda>u r h w. (Inr (case Subprotocols u of None \<Rightarrow> ''''
       | Some ps \<Rightarrow> (case preferred ps r of None \<Rightarrow> '''' | Some p \<Rightarrow> p)), w)),
     ws_Subprotocol = (\<lambda>p. p), socket_Close = (\<lambda>p. note_event ''close'')\<rparr>"

lemma demo_lib_negotiates: "negotiates demo_lib (\<lambda>r. r)"
  by (simp add: negotiates_def demo_lib_def)

theorem request_becomes_connection_witness:
  "fst (serve demo_lib (AddSubprotocol ''graphql-ws'' (NewUpgrader \<lparr>Subprotocols = Some [''mqtt'']\<rparr>)) 0
     demo_config [''graphql-ws'', ''mqtt''] 0 []) = (None, Some ErrClientDoesNotImplementGraphqlWS)"
proof -
  let ?g = "NewUpgrader \<lparr>Subprotocols = Some [''mqtt'']\<rparr>"
  let ?us = "(\<lambda>_. ?g)(0 := AddSubprotocol ''graphql-ws'' ?g)"
  have n: "NewHttpHandler \<lparr>hc_Upgrader = Some 0, hc_Schema = Some 0\<rparr> (\<lambda>_. ?g) = (Returns (0, 0), ?us)"
    by (simp add: NewHttpHandler_def)
  have u: "Upgrade demo_lib (?us 0) [''graphql-ws'', ''mqtt''] [] = (Inr ''mqtt'', [])"
    by (simp add: Upgrade_def demo_lib_def AddSubprotocol_def NewUpgrader_def preferred_def)
  show ?thesis
    using request_becomes_connection [OF demo_lib_negotiates n u, of demo_config 0]
    by (simp add: listed_def NewUpgrader_def)
qed

end
