(* ===== verification/ChatServer.thy ===== *)
theory ChatServer
  imports RedisReader MessageProperties
begin

text \<open>
  The example of a chat server (\<open>examples/simple-chat-server-redis/main.go\<close>): a handler that
  keeps a table of the users who joined, the resolvers and subscribe functions of its schema,
  and the publishing of what happens.  It is a client of the library and of the Redis handler,
  whose definitions it uses.
\<close>

subsection \<open>Data\<close>

record User =
  user_Name :: string

record AuthToken =
  auth_AuthToken :: string

record Message =
  message_Text :: string
  message_User :: "User option"

definition zero_User :: User where
  "zero_User = \<lparr>user_Name = ''''\<rparr>"

definition zero_AuthToken :: AuthToken where
  "zero_AuthToken = \<lparr>auth_AuthToken = ''''\<rparr>"

definition zero_Message :: Message where
  "zero_Message = \<lparr>message_Text = '''', message_User = None\<rparr>"

text \<open>
  What \<open>encoding/json\<close> reads and writes for them, by their tags.  A null makes the pointer
  \<open>user\<close> nil, an object is read into the user it points to, or into a new one.
\<close>

definition User_field :: "string \<Rightarrow> json \<Rightarrow> User \<Rightarrow> string + User" where
  "User_field k v u =
    (if key_matches ''name'' k then
       (case decode_string v (user_Name u) of Inl e \<Rightarrow> Inl e | Inr s \<Rightarrow> Inr (u\<lparr>user_Name := s\<rparr>))
     else Inr u)"

definition AuthToken_field :: "string \<Rightarrow> json \<Rightarrow> AuthToken \<Rightarrow> string + AuthToken" where
  "AuthToken_field k v a =
    (if key_matches ''authToken'' k then
       (case decode_string v (auth_AuthToken a) of Inl e \<Rightarrow> Inl e | Inr s \<Rightarrow> Inr (a\<lparr>auth_AuthToken := s\<rparr>))
     else Inr a)"

definition Message_field :: "string \<Rightarrow> json \<Rightarrow> Message \<Rightarrow> string + Message" where
  "Message_field k v m =
    (if key_matches ''text'' k then
       (case decode_string v (message_Text m) of Inl e \<Rightarrow> Inl e | Inr s \<Rightarrow> Inr (m\<lparr>message_Text := s\<rparr>))
     else if key_matches ''user'' k then
       (if v = JNull then Inr (m\<lparr>message_User := None\<rparr>)
        else (case decode_struct User_field v
              (case message_User m of None \<Rightarrow> zero_User | Some u \<Rightarrow> u) of
            Inl e \<Rightarrow> Inl e | Inr u \<Rightarrow> Inr (m\<lparr>message_User := Some u\<rparr>)))
     else Inr m)"

text \<open>
  Names were decoded from JSON and texts are those of GraphQL, so both are UTF-8 and written as they
  are.
\<close>

definition encode_User :: "User \<Rightarrow> json" where
  "encode_User u = JObj [(''name'', JStr (user_Name u))]"

definition encode_Message :: "Message \<Rightarrow> json" where
  "encode_Message m = JObj [(''text'', JStr (message_Text m)),
     (''user'', case message_User m of None \<Rightarrow> JNull | Some u \<Rightarrow> encode_User u)]"

subsection \<open>State\<close>

text \<open>
  The \<open>connectionHandler\<close>s by the address by which they are attached to connections, the map
  \<open>users\<close>, whose values point to the \<open>user\<close> inside a \<open>connectionHandler\<close> (named by the address
  of the latter), and what the Redis pool has done.  Several connections share one such state.
\<close>

record connectionHandler =
  ch_conn :: nat
  ch_user :: User

record 'b chat =
  chat_objects :: "nat \<rightharpoonup> connectionHandler"
  users :: "string \<rightharpoonup> nat"
  broker :: 'b

text \<open>The pool: \<open>Get\<close>, and \<open>Do\<close> and \<open>Close\<close> of the connection it gives.\<close>

record 'b redis_pool =
  pool_Get :: "'b \<Rightarrow> nat \<times> 'b"
  pool_Do :: "nat \<Rightarrow> string \<Rightarrow> Topic \<Rightarrow> json \<Rightarrow> 'b \<Rightarrow> goerr option \<times> 'b"
  pool_Close :: "nat \<Rightarrow> 'b \<Rightarrow> goerr option \<times> 'b"

subsection \<open>Publishing\<close>

definition broadcast :: "'b redis_pool \<Rightarrow> Topic \<Rightarrow> go_value \<Rightarrow> 'b \<Rightarrow> goerr option \<times> 'b" where
  "broadcast P topic data b = (case pool_Get P b of (redisConn, b) \<Rightarrow>
     (case data of
        None \<Rightarrow> (Some (JsonErr ''json''), snd (pool_Close P redisConn b))
      | Some dataJson \<Rightarrow> (case pool_Do P redisConn ''PUBLISH'' topic dataJson b of (err, b) \<Rightarrow>
          (err, snd (pool_Close P redisConn b)))))"

definition broadcastJoin :: "'b redis_pool \<Rightarrow> User \<Rightarrow> 'b \<Rightarrow> 'b" where
  "broadcastJoin P user b = snd (broadcast P (StringTopic ''onJoin'') (Some (encode_User user)) b)"

definition broadcastLeft :: "'b redis_pool \<Rightarrow> User \<Rightarrow> 'b \<Rightarrow> 'b" where
  "broadcastLeft P user b = snd (broadcast P (StringTopic ''onLeft'') (Some (encode_User user)) b)"

definition broadcastMessage :: "'b redis_pool \<Rightarrow> Message \<Rightarrow> 'b \<Rightarrow> 'b" where
  "broadcastMessage P message b =
     snd (broadcast P (StringTopic ''onMessage'') (Some (encode_Message message)) b)"

subsection \<open>The handler of a connection\<close>

text \<open>The methods of the \<open>connectionHandler\<close> at address \<open>a\<close>.\<close>

definition chat_HandleWebsocketClose ::
  "'b redis_pool \<Rightarrow> nat \<Rightarrow> (int \<times> string, goerr option, 'b chat) go_method" where
  "chat_HandleWebsocketClose P a arg w = (case chat_objects w a of
       None \<Rightarrow> (Raises PNilDeref, w)
     | Some handler \<Rightarrow>
         let w = w\<lparr>broker := broadcastLeft P (ch_user handler) (broker w)\<rparr> in
         (Returns None, w\<lparr>users := (users w)(user_Name (ch_user handler) := None)\<rparr>))"

definition decode_AuthToken :: "json option \<Rightarrow> goerr + AuthToken" where
  "decode_AuthToken p = decode_payload AuthToken_field p zero_AuthToken"

definition ErrUserNameRequired :: goerr where
  "ErrUserNameRequired = ErrNew ''the user name should be provided''"

definition chat_HandleConnectionInit ::
  "'b redis_pool \<Rightarrow> nat \<Rightarrow> (GQLConnectionInit, goerr option, 'b chat) go_method" where
  "chat_HandleConnectionInit P a init w = (case decode_AuthToken (init_Payload init) of
       Inl err \<Rightarrow> (Returns (Some err), w)
     | Inr auth \<Rightarrow>
         if auth_AuthToken auth = '''' then (Returns (Some ErrUserNameRequired), w)
         else (case chat_objects w a of
             None \<Rightarrow> (Raises PNilDeref, w)
           | Some handler \<Rightarrow>
               let user = (ch_user handler)\<lparr>user_Name := auth_AuthToken auth\<rparr>;
                   w = w\<lparr>chat_objects := (chat_objects w)(a \<mapsto> handler\<lparr>ch_user := user\<rparr>)\<rparr>;
                   w = w\<lparr>users := (users w)(user_Name user \<mapsto> a)\<rparr>
               in (Returns None, w\<lparr>broker := broadcastJoin P user (broker w)\<rparr>)))"

text \<open>As a handler of a connection whose outside state is that of the Redis handler too.\<close>

definition on_net :: "('arg, 'r, 'n) go_method \<Rightarrow> ('arg, 'r, 'n redis_world) go_method" where
  "on_net m arg w = (case m arg (rw_net w) of (r, n) \<Rightarrow> (r, w\<lparr>rw_net := n\<rparr>))"

definition chat_methods :: "'b redis_pool \<Rightarrow> nat \<Rightarrow> (Subscription, 'b chat redis_world) methods" where
  "chat_methods P a = no_methods\<lparr>
     HandleConnectionInit := Some (on_net (chat_HandleConnectionInit P a)),
     HandleWebsocketClose := Some (on_net (chat_HandleWebsocketClose P a))\<rparr>"

text \<open>The callback of \<open>NewHttpHandler\<close>; \<open>r\<close> and \<open>a\<close> are the addresses of the new handlers.\<close>

definition chat_callback ::
  "nat \<Rightarrow> nat \<Rightarrow> goerr option \<Rightarrow> 'b chat redis_world conn \<Rightarrow> (unit, 'b chat redis_world) cprog" where
  "chat_callback r a err c = (case err of
       Some e \<Rightarrow> Ret () c
     | None \<Rightarrow> andthen (AddHandler (HObj r) c) (\<lambda>_ c.
         AddHandler (HObj a) (on_world (\<lambda>w. w\<lparr>rw_net := (rw_net w)\<lparr>chat_objects :=
           (chat_objects (rw_net w))(a \<mapsto> \<lparr>ch_conn = c_id c, ch_user = zero_User\<rparr>)\<rparr>\<rparr>) c)))"

fun handlerFromConnection :: "'b chat \<Rightarrow> handler list \<Rightarrow> nat option" where
  "handlerFromConnection w [] = None"
| "handlerFromConnection w (HObj a # hs) =
     (if chat_objects w a \<noteq> None then Some a else handlerFromConnection w hs)"
| "handlerFromConnection w (HSlice n # hs) = handlerFromConnection w hs"

subsection \<open>Resolvers\<close>

definition user_not_found :: "string \<Rightarrow> goerr" where
  "user_not_found userName = ErrNew (''user '' @ [CHR 39] @ userName @ [CHR 39] @ '' not found'')"

definition me_Resolve :: "goerr + User option" where
  "me_Resolve = Inr (Some \<lparr>user_Name = ''unknkown''\<rparr>)"

text \<open>
  The mutation \<open>send\<close>: the message points to the user the table points to, whatever name that
  user has by now.
\<close>

definition send_Resolve ::
  "'b redis_pool \<Rightarrow> (string \<rightharpoonup> argument) \<Rightarrow> 'b chat \<Rightarrow> (goerr + Message option) call \<times> 'b chat" where
  "send_Resolve P args w = (case string_arg (args ''user'') of
       Raises p \<Rightarrow> (Raises p, w)
     | Returns userName \<Rightarrow> (case users w userName of
           None \<Rightarrow> (Returns (Inl (user_not_found userName)), w)
         | Some a \<Rightarrow> (case args ''text'' of
               None \<Rightarrow> (Returns (Inl (ErrNew ''you must pass the text'')), w)
             | Some text \<Rightarrow> (case string_arg (Some text) of
                   Raises p \<Rightarrow> (Raises p, w)
                 | Returns s \<Rightarrow>
                     let m = \<lparr>message_Text = s, message_User = map_option ch_user (chat_objects w a)\<rparr> in
                     (Returns (Inr (Some m)), w\<lparr>broker := broadcastMessage P m (broker w)\<rparr>)))))"

text \<open>
  The context of a subscription's execution binds the name of a channel to the bytes that
  arrived, given by the JSON value they spell, if any (the inner \<open>None\<close> is no JSON).
\<close>

type_synonym gql_context = "string \<rightharpoonup> json option"

definition user_Resolve :: "string \<Rightarrow> gql_context \<Rightarrow> goerr + User option" where
  "user_Resolve channel ctx = (case ctx channel of
       None \<Rightarrow> Inr None
     | Some userRaw \<Rightarrow> (case decode_payload User_field userRaw zero_User of
           Inl err \<Rightarrow> Inl err | Inr user \<Rightarrow> Inr (Some user)))"

definition onJoin_Resolve :: "gql_context \<Rightarrow> goerr + User option" where
  "onJoin_Resolve ctx = user_Resolve ''onJoin'' ctx"

definition onLeft_Resolve :: "gql_context \<Rightarrow> goerr + User option" where
  "onLeft_Resolve ctx = user_Resolve ''onLeft'' ctx"

text \<open>
  \<open>conn\<close> are the handlers of the connection the context holds, \<open>None\<close> if it holds none; the
  comparison of the names, for a log line, dereferences both users.
\<close>

definition onMessage_Resolve ::
  "'b chat \<Rightarrow> handler list option \<Rightarrow> gql_context \<Rightarrow> (goerr + Message option) call" where
  "onMessage_Resolve w conn ctx = (case ctx ''onMessage'' of
       None \<Rightarrow> Returns (Inr None)
     | Some messageRaw \<Rightarrow> (case decode_payload Message_field messageRaw zero_Message of
           Inl err \<Rightarrow> Returns (Inl err)
         | Inr message \<Rightarrow> (case conn of
               None \<Rightarrow> Raises PTypeAssertion
             | Some hs \<Rightarrow>
                 if message_User message = None \<or> handlerFromConnection w hs = None
                 then Raises PNilDeref else Returns (Inr (Some message)))))"

subsection \<open>Subscribe functions\<close>

definition subscribe_one :: "string \<Rightarrow> 'n subscribe_function" where
  "subscribe_one name params subscriber n =
    (case SubscriberSubscribe subscriber (TopicValue (StringTopic name)) of (err, subscriber) \<Rightarrow>
       (Returns err, subscriber, n))"

definition onJoin_Subscribe :: "'n subscribe_function" where
  "onJoin_Subscribe = subscribe_one ''onJoin''"

definition onLeft_Subscribe :: "'n subscribe_function" where
  "onLeft_Subscribe = subscribe_one ''onLeft''"

text \<open>\<open>handlers_of\<close>: the field \<open>Handlers\<close> of the connection with a given id.\<close>

definition onMessage_Subscribe :: "(nat \<Rightarrow> handler list) \<Rightarrow> 'b chat subscribe_function" where
  "onMessage_Subscribe handlers_of params subscriber w = (case sub_Connection (sp_Data params) of
       None \<Rightarrow> (Raises PNilDeref, subscriber, w)
     | Some conn \<Rightarrow> (case handlerFromConnection w (handlers_of conn) of
           None \<Rightarrow> (Raises PNilDeref, subscriber, w)
         | Some a \<Rightarrow> (case chat_objects w a of
               None \<Rightarrow> (Raises PNilDeref, subscriber, w)
             | Some connHandler \<Rightarrow>
                 (case SubscriberSubscribe subscriber (TopicValue (StringTopic
                     (''onDirectMessage.'' @ user_Name (ch_user connHandler)))) of
                    (Some err, subscriber) \<Rightarrow> (Returns (Some err), subscriber, w)
                  | (None, subscriber) \<Rightarrow>
                      (case SubscriberSubscribe subscriber (TopicValue (StringTopic ''onMessage'')) of
                         (err, subscriber) \<Rightarrow> (Returns err, subscriber, w))))))"

text \<open>The fields of the subscription type, and the library with this schema and dialer.\<close>

definition chat_fields :: "(nat \<Rightarrow> handler list) \<Rightarrow> string \<Rightarrow> 'b chat subscription_field option" where
  "chat_fields handlers_of = [''onJoin'' \<mapsto> \<lparr>f_Subscribe = Some onJoin_Subscribe\<rparr>,
     ''onLeft'' \<mapsto> \<lparr>f_Subscribe = Some onLeft_Subscribe\<rparr>,
     ''onMessage'' \<mapsto> \<lparr>f_Subscribe = Some (onMessage_Subscribe handlers_of)\<rparr>]"

definition redisDialer :: "'o dialer" where
  "redisDialer = NewDialer ''tcp'' ''localhost:6379'' []"

definition chat_redis ::
  "(nat \<Rightarrow> handler list) \<Rightarrow> (string \<Rightarrow> string \<Rightarrow> 'o list \<Rightarrow> 'b chat \<Rightarrow> (goerr + nat) \<times> 'b chat) \<Rightarrow>
    'b chat redis_lib \<Rightarrow> 'b chat redis_lib" where
  "chat_redis handlers_of redis_Dial L = L\<lparr>
     schema_fields := (\<lambda>s. case s of None \<Rightarrow> Raises PNilDeref | Some i \<Rightarrow> Returns (chat_fields handlers_of)),
     rl_Dial := dialer_Dial redis_Dial redisDialer\<rparr>"

subsection \<open>Properties\<close>

lemma chat_keys [simp]: "\<not> key_matches ''text'' ''user''"
  by (simp add: key_matches_def ascii_lower_def)

lemma message_wire: "decode_payload Message_field (Some (encode_Message m)) zero_Message = Inr m"
  by (cases "message_User m")
    (simp_all add: decode_payload_def encode_Message_def decode_struct_def Message_field_def
      encode_User_def User_field_def zero_Message_def zero_User_def)

lemma user_wire: "decode_payload User_field (Some (encode_User u)) zero_User = Inr u"
  by (simp add: decode_payload_def encode_User_def decode_struct_def User_field_def zero_User_def)

text \<open>
  C28: what a user who joined sends arrives: the mutation \<open>send\<close> publishes exactly one value on
  the channel \<open>onMessage\<close>, over one connection of the pool, which it gives back, and the resolver
  of every subscription that gets this value on a connection with a \<open>connectionHandler\<close> yields
  the same text and the sender's name.
\<close>

theorem sent_message_reaches_the_subscribers:
  assumes "args ''user'' = Some (ArgString u)" and "args ''text'' = Some (ArgString t)"
    and "users w u = Some a" and "chat_objects w a = Some handler"
    and "pool_Get P (broker w) = (k, b)"
  shows "\<exists>j. broker (snd (send_Resolve P args w)) =
      snd (pool_Close P k (snd (pool_Do P k ''PUBLISH'' (StringTopic ''onMessage'') j b))) \<and>
    (\<forall>w' hs ctx. handlerFromConnection w' hs \<noteq> None \<longrightarrow> ctx ''onMessage'' = Some (Some j) \<longrightarrow>
       onMessage_Resolve w' (Some hs) ctx =
         Returns (Inr (Some \<lparr>message_Text = t, message_User = Some (ch_user handler)\<rparr>)))"
proof -
  let ?m = "\<lparr>message_Text = t, message_User = Some (ch_user handler)\<rparr>"
  have "broker (snd (send_Resolve P args w)) =
      snd (pool_Close P k (snd (pool_Do P k ''PUBLISH'' (StringTopic ''onMessage'') (encode_Message ?m) b)))"
    using assms by (simp add: send_Resolve_def broadcastMessage_def broadcast_def Let_def split_beta)
  moreover have "onMessage_Resolve w' (Some hs) ctx = Returns (Inr (Some ?m))"
    if "handlerFromConnection w' hs \<noteq> None" "ctx ''onMessage'' = Some (Some (encode_Message ?m))"
    for w' :: "'b chat" and hs ctx
    using that by (simp add: onMessage_Resolve_def message_wire)
  ultimately show ?thesis by blast
qed

text \<open>A pool that keeps what was published, for examples.\<close>

definition demo_pool :: "json list redis_pool" where
  "demo_pool = \<lparr>pool_Get = Pair 5, pool_Do = (\<lambda>k c t j b. (None, b @ [j])), pool_Close = (\<lambda>k. Pair None)\<rparr>"

definition ann_chat :: "json list chat" where
  "ann_chat = \<lparr>chat_objects = [1 \<mapsto> \<lparr>ch_conn = 1, ch_user = \<lparr>user_Name = ''ann''\<rparr>\<rparr>],
     users = [''ann'' \<mapsto> 1], broker = []\<rparr>"

theorem sent_message_reaches_the_subscribers_witness:
  "\<exists>j. broker (snd (send_Resolve demo_pool [''user'' \<mapsto> ArgString ''ann'', ''text'' \<mapsto> ArgString ''hi''] ann_chat)) = [j] \<and>
     onMessage_Resolve ann_chat (Some [HObj 0, HObj 1]) [''onMessage'' \<mapsto> Some j] =
       Returns (Inr (Some \<lparr>message_Text = ''hi'', message_User = Some \<lparr>user_Name = ''ann''\<rparr>\<rparr>))"
proof -
  let ?args = "[''user'' \<mapsto> ArgString ''ann'', ''text'' \<mapsto> ArgString ''hi'']"
  let ?h = "\<lparr>ch_conn = 1, ch_user = \<lparr>user_Name = ''ann''\<rparr>\<rparr>"
  have a: "?args ''user'' = Some (ArgString ''ann'')" "?args ''text'' = Some (ArgString ''hi'')"
    "users ann_chat ''ann'' = Some 1" "chat_objects ann_chat 1 = Some ?h"
    "pool_Get demo_pool (broker ann_chat) = (5, [])"
    by (simp_all add: ann_chat_def demo_pool_def)
  have h: "handlerFromConnection ann_chat [HObj 0, HObj 1] \<noteq> None" by (simp add: ann_chat_def)
  obtain j where j: "broker (snd (send_Resolve demo_pool ?args ann_chat)) =
      snd (pool_Close demo_pool 5 (snd (pool_Do demo_pool 5 ''PUBLISH'' (StringTopic ''onMessage'') j [])))"
    "\<forall>(w' :: json list chat) hs ctx. handlerFromConnection w' hs \<noteq> None \<longrightarrow> ctx ''onMessage'' = Some (Some j) \<longrightarrow>
       onMessage_Resolve w' (Some hs) ctx =
         Returns (Inr (Some \<lparr>message_Text = ''hi'', message_User = Some (ch_user ?h)\<rparr>))"
    using sent_message_reaches_the_subscribers [OF a] by blast
  from j(1) have "broker (snd (send_Resolve demo_pool ?args ann_chat)) = [j]"
    by (simp add: demo_pool_def)
  moreover have "onMessage_Resolve ann_chat (Some [HObj 0, HObj 1]) [''onMessage'' \<mapsto> Some j] =
      Returns (Inr (Some \<lparr>message_Text = ''hi'', message_User = Some (ch_user ?h)\<rparr>))"
    by (rule j(2) [rule_format, OF h]) simp
  ultimately show ?thesis by (intro exI [of _ j] conjI) (assumption, simp only: connectionHandler.simps)
qed

text \<open>A connection of the chat: its Redis handler and, after it, its \<open>connectionHandler\<close>.\<close>

definition chat_conn ::
  "'b chat redis_world env \<Rightarrow> 'b chat redis_lib \<Rightarrow> 'b redis_pool \<Rightarrow> nat \<Rightarrow> 'b chat redis_world conn \<Rightarrow> bool" where
  "chat_conn E L P a c \<longleftrightarrow> (\<exists>r. c_Handlers c = [HObj r, HObj a] \<and> impls E r = redis_methods L \<and>
     impls E a = chat_methods P a)"

definition chat_of :: "'b chat redis_world conn \<Rightarrow> 'b chat" where
  "chat_of c = rw_net (c_world c)"

lemma chat_methods_simps [simp]:
  "HandleConnectionInit (chat_methods P a) = Some (on_net (chat_HandleConnectionInit P a))"
  "HandleWebsocketClose (chat_methods P a) = Some (on_net (chat_HandleWebsocketClose P a))"
  "HandleConnectionInit (redis_methods L) = None"
  by (simp_all add: chat_methods_def redis_methods_def no_methods_def)

lemma chat_init_verdict:
  assumes "chat_conn E L P a c"
  shows "init_verdict E m c = (case chat_HandleConnectionInit P a \<lparr>init_Payload = msg_Payload m\<rparr> (chat_of c) of
      (Raises p, n) \<Rightarrow> (Inl p, (c_world c)\<lparr>rw_net := n\<rparr>)
    | (Returns e, n) \<Rightarrow> (case init_ctl e of
          Inl p \<Rightarrow> (Inl p, (c_world c)\<lparr>rw_net := n\<rparr>)
        | Inr (Return err) \<Rightarrow> (Inr (Returned err), (c_world c)\<lparr>rw_net := n\<rparr>)
        | Inr Next \<Rightarrow> (Inr Completed, (c_world c)\<lparr>rw_net := n\<rparr>)
        | Inr Break \<Rightarrow> (Inr Broken, (c_world c)\<lparr>rw_net := n\<rparr>)))"
  using assms
  by (auto simp: chat_conn_def init_verdict_def handler_call_def on_net_def chat_of_def
      split: prod.splits call.splits sum.splits ctl.splits)

lemma chat_join_run:
  assumes "open_conn c" and "chat_conn E L P a c" and "chat_objects (chat_of c) a = Some handler"
    and "msg_Type m = ''connection_init''" and "has_room (c_outgoing c)" and "has_room (c_incoming c)"
  shows "\<exists>c'. run (processIncomeMessage E (Msg m) c) = Done () c' \<and>
    (case decode_AuthToken (msg_Payload m) of
       Inr auth \<Rightarrow>
         if auth_AuthToken auth \<noteq> '''' then
           c_state c' = connStateEstablished \<and>
           chan_buf (c_outgoing c') = chan_buf (c_outgoing c) @ [Msg gqlConnectionAck_message] \<and>
           users (chat_of c') = (users (chat_of c))(auth_AuthToken auth \<mapsto> a) \<and>
           map_option ch_user (chat_objects (chat_of c') a) = Some \<lparr>user_Name = auth_AuthToken auth\<rparr>
         else c_state c' = c_state c \<and> chat_of c' = chat_of c \<and>
           chan_buf (c_outgoing c') = chan_buf (c_outgoing c) @ [Msg (zero_OperationMessage
             \<lparr>msg_Type := ''connection_error'', msg_Payload := Some (JStr (json_text (err_text ErrUserNameRequired)))\<rparr>)] \<and>
           chan_buf (c_incoming c') = chan_buf (c_incoming c) @ [operationMessageEOF]
     | Inl e \<Rightarrow> c_state c' = c_state c \<and> chat_of c' = chat_of c \<and>
         chan_buf (c_outgoing c') = chan_buf (c_outgoing c) @ [Msg (zero_OperationMessage
           \<lparr>msg_Type := ''connection_error'', msg_Payload := Some (JStr (json_text (err_text e)))\<rparr>)])"
proof (cases "decode_AuthToken (msg_Payload m)")
  case (Inl e)
  then have "chat_HandleConnectionInit P a \<lparr>init_Payload = msg_Payload m\<rparr> (chat_of c) = (Returns (Some e), chat_of c)"
    and e: "init_ctl (Some e) = Inr (Return e)" "\<not> is_handler_err e"
    by (auto simp: chat_HandleConnectionInit_def decode_AuthToken_def decode_payload_def
        split: option.splits sum.splits)
  then have "init_verdict E m c = (Inr (Returned e), c_world c)"
    by (simp add: chat_init_verdict [OF assms(2)] chat_of_def)
  from run_init_rejected [OF assms(1,4) this assms(5,6)] e(2) Inl show ?thesis
    by (simp add: chat_of_def zero_OperationMessage_def)
next
  case (Inr auth)
  show ?thesis
  proof (cases "auth_AuthToken auth = ''''")
    case True
    have "init_verdict E m c = (Inr (Returned ErrUserNameRequired), c_world c)"
      using Inr True
      by (simp add: chat_init_verdict [OF assms(2)] chat_of_def chat_HandleConnectionInit_def
          ErrUserNameRequired_def)
    from run_init_rejected [OF assms(1,4) this assms(5,6)] Inr True show ?thesis
      by (simp add: chat_of_def zero_OperationMessage_def ErrUserNameRequired_def)
  next
    case False
    obtain n where n: "chat_HandleConnectionInit P a \<lparr>init_Payload = msg_Payload m\<rparr> (chat_of c) = (Returns None, n)"
      "users n = (users (chat_of c))(auth_AuthToken auth \<mapsto> a)"
      "map_option ch_user (chat_objects n a) = Some \<lparr>user_Name = auth_AuthToken auth\<rparr>"
      using Inr False assms(3)
      by (cases "ch_user handler") (simp add: chat_HandleConnectionInit_def Let_def)
    then have "init_verdict E m c = (Inr Completed, (c_world c)\<lparr>rw_net := n\<rparr>)"
      by (simp add: chat_init_verdict [OF assms(2)])
    from run_init_accepted [OF assms(1,4) this _ assms(5)] Inr False n(2,3) show ?thesis
      by (simp add: chat_of_def gqlConnectionAck_message_def zero_OperationMessage_def gql_type_defs)
  qed
qed

text \<open>
  C29: joining the chat.  A handshake with a non-empty \<open>authToken\<close> establishes the connection,
  queues the acknowledgement, names the user of this connection, and makes the table find
  it under that name, with every other entry as it was.  An empty name, or a payload that
  cannot be decoded, is refused: the client gets a \<open>connection_error\<close>, the connection is told to
  end, and the chat is as it was.
\<close>

theorem joining_the_chat:
  assumes "open_conn c" and "chat_conn E L P a c" and "chat_objects (chat_of c) a = Some handler"
    and "msg_Type m = ''connection_init''" and "has_room (c_outgoing c)" and "has_room (c_incoming c)"
  shows "\<exists>c'. run (processIncomeMessage E (Msg m) c) = Done () c' \<and>
    (case decode_AuthToken (msg_Payload m) of
       Inr auth \<Rightarrow>
         if auth_AuthToken auth \<noteq> '''' then
           c_state c' = connStateEstablished \<and>
           chan_buf (c_outgoing c') = chan_buf (c_outgoing c) @ [Msg gqlConnectionAck_message] \<and>
           users (chat_of c') = (users (chat_of c))(auth_AuthToken auth \<mapsto> a) \<and>
           map_option ch_user (chat_objects (chat_of c') a) = Some \<lparr>user_Name = auth_AuthToken auth\<rparr>
         else c_state c' = c_state c \<and> chat_of c' = chat_of c \<and>
           chan_buf (c_outgoing c') = chan_buf (c_outgoing c) @ [Msg (zero_OperationMessage
             \<lparr>msg_Type := ''connection_error'', msg_Payload := Some (JStr (json_text (err_text ErrUserNameRequired)))\<rparr>)] \<and>
           chan_buf (c_incoming c') = chan_buf (c_incoming c) @ [operationMessageEOF]
     | Inl e \<Rightarrow> c_state c' = c_state c \<and> chat_of c' = chat_of c \<and>
         chan_buf (c_outgoing c') = chan_buf (c_outgoing c) @ [Msg (zero_OperationMessage
           \<lparr>msg_Type := ''connection_error'', msg_Payload := Some (JStr (json_text (err_text e)))\<rparr>)])"
  using assms by (rule chat_join_run)

text \<open>A chat with one connection, for examples.\<close>

definition quiet_redis :: "json list chat redis_lib" where
  "quiet_redis = \<lparr>schema_fields = (\<lambda>s. Raises PNilDeref), gq_Execute = (\<lambda>s ch m n. ((None, []), n)),
     rl_Dial = (\<lambda>n. (Inr 7, n)), rl_Err = (\<lambda>k n. (None, n)), rl_Subscribe = (\<lambda>k ts n. (None, n)),
     rl_Close = (\<lambda>k n. (None, n))\<rparr>"

definition demo_chat_redis :: "json list chat redis_lib" where
  "demo_chat_redis = chat_redis (\<lambda>conn. [HObj 0, HObj 1]) (\<lambda>p a (os :: unit list) n. (Inr 7, n)) quiet_redis"

definition chat_env :: "json list chat redis_world env" where
  "chat_env = \<lparr>ws_WriteJSON = (\<lambda>j w. (None, w)), ws_WriteMessage = (\<lambda>f w. (None, w)),
     ws_WriteControl = (\<lambda>f d w. (None, w)), ws_Close = (\<lambda>w. (None, w)),
     ws_SetReadDeadline = (\<lambda>d w. (None, w)), ws_SetWriteDeadline = (\<lambda>d w. (None, w)),
     ws_SetReadLimit = (\<lambda>l w. ((), w)), gq_Parse = (\<lambda>q. Inr example_document),
     gq_IsValid = (\<lambda>s d. True), other_errors = (\<lambda>e. None),
     impls = (\<lambda>n. if n = 1 then chat_methods demo_pool 1 else redis_methods demo_chat_redis)\<rparr>"

definition empty_chat :: "json list chat" where
  "empty_chat = \<lparr>chat_objects = Map.empty, users = Map.empty, broker = []\<rparr>"

definition no_readers :: "'n \<Rightarrow> 'n redis_world" where
  "no_readers n = \<lparr>rw_readers = [], rw_subscriptions = [], rw_pumps = [], rw_net = n\<rparr>"

text \<open>The callback attaches both handlers.\<close>

lemma chat_callback_run:
  assumes "idle c"
  shows "run (chat_callback r a None c) = Done () (on_world (\<lambda>w. w\<lparr>rw_net := (rw_net w)\<lparr>chat_objects :=
      (chat_objects (rw_net w))(a \<mapsto> \<lparr>ch_conn = c_id c, ch_user = zero_User\<rparr>)\<rparr>\<rparr>)
    (c\<lparr>c_Handlers := c_Handlers c @ [HObj r, HObj a]\<rparr>))"
  using assms
  by (cases c) (simp add: chat_callback_def AddHandler_def run_simps unlock_defs idle_def on_world_def)

definition new_chat_conn :: "json list chat redis_world conn" where
  "new_chat_conn = outcome_state (run (chat_callback 0 1 None
     (snd (NewConn (Some 0) demo_config 0 (no_readers empty_chat)))))"

lemma new_chat_conn_facts:
  "open_conn new_chat_conn" "chat_conn chat_env demo_chat_redis demo_pool 1 new_chat_conn"
  "chat_objects (chat_of new_chat_conn) 1 = Some \<lparr>ch_conn = 1, ch_user = zero_User\<rparr>"
  "has_room (c_outgoing new_chat_conn)" "has_room (c_incoming new_chat_conn)"
  using chat_callback_run [OF idle_NewConn, of 0 1 "Some 0" demo_config 0 "no_readers empty_chat"]
  by (simp_all add: new_chat_conn_def open_conn_def idle_def NewConn_def on_world_def chat_conn_def
      chat_env_def chat_of_def no_readers_def)

definition ann_joins :: OperationMessage where
  "ann_joins = \<lparr>msg_ID = '''', msg_Type = ''connection_init'',
     msg_Payload = Some (JObj [(''authToken'', JStr ''ann'')])\<rparr>"

theorem joining_the_chat_witness:
  "\<exists>c. run (processIncomeMessage chat_env (Msg ann_joins) new_chat_conn) = Done () c \<and>
     c_state c = connStateEstablished \<and> users (chat_of c) ''ann'' = Some 1"
proof -
  have t: "msg_Type ann_joins = ''connection_init''" by (simp add: ann_joins_def)
  have d: "decode_AuthToken (msg_Payload ann_joins) = Inr \<lparr>auth_AuthToken = ''ann''\<rparr>"
    by (simp add: ann_joins_def decode_AuthToken_def decode_payload_def decode_struct_def
        AuthToken_field_def zero_AuthToken_def)
  show ?thesis
    using joining_the_chat [OF new_chat_conn_facts(1-3) t new_chat_conn_facts(4,5)] d by auto
qed

subsection \<open>Histories of the chat\<close>

text \<open>
  What happens to the shared state: a connection is accepted (the callback allocates a new
  \<open>connectionHandler\<close>), a handler is asked about a handshake or told of the close, a message is
  sent.
\<close>

datatype chat_event =
    Attached nat nat
  | Joining nat GQLConnectionInit
  | Leaving_chat nat
  | Sending "string \<rightharpoonup> argument"

fun chat_do :: "'b redis_pool \<Rightarrow> chat_event \<Rightarrow> 'b chat \<Rightarrow> 'b chat" where
  "chat_do P (Attached a cid) w =
     (if chat_objects w a \<noteq> None then w
      else w\<lparr>chat_objects := (chat_objects w)(a \<mapsto> \<lparr>ch_conn = cid, ch_user = zero_User\<rparr>)\<rparr>)"
| "chat_do P (Joining a init) w = snd (chat_HandleConnectionInit P a init w)"
| "chat_do P (Leaving_chat a) w = snd (chat_HandleWebsocketClose P a (0, '''') w)"
| "chat_do P (Sending args) w = snd (send_Resolve P args w)"

fun asks_to_join :: "nat \<Rightarrow> chat_event \<Rightarrow> bool" where
  "asks_to_join a (Joining b init) = (a = b)"
| "asks_to_join a ev = False"

definition handshakes :: "nat \<Rightarrow> chat_event list \<Rightarrow> nat" where
  "handshakes a evs = length (filter (asks_to_join a) evs)"

lemma join_outcome:
  "chat_HandleConnectionInit P a init w =
    (case decode_AuthToken (init_Payload init) of
       Inl err \<Rightarrow> (Returns (Some err), w)
     | Inr auth \<Rightarrow>
         if auth_AuthToken auth = '''' then (Returns (Some ErrUserNameRequired), w)
         else (case chat_objects w a of
             None \<Rightarrow> (Raises PNilDeref, w)
           | Some h \<Rightarrow> (Returns None,
               \<lparr>chat_objects = (chat_objects w)(a \<mapsto> h\<lparr>ch_user := \<lparr>user_Name = auth_AuthToken auth\<rparr>\<rparr>),
                users = (users w)(auth_AuthToken auth \<mapsto> a),
                broker = broadcastJoin P \<lparr>user_Name = auth_AuthToken auth\<rparr> (broker w)\<rparr>)))"
proof -
  have u: "u\<lparr>user_Name := x\<rparr> = \<lparr>user_Name = x\<rparr>" for u :: User and x by (cases u) simp
  show ?thesis
    by (cases w) (auto simp: u chat_HandleConnectionInit_def Let_def split: sum.split option.split)
qed

lemma send_keeps:
  "users (snd (send_Resolve P args w)) = users w"
  "chat_objects (snd (send_Resolve P args w)) = chat_objects w"
  by (auto simp: send_Resolve_def Let_def split: call.split option.split)

definition entry_ok :: "chat_event list \<Rightarrow> 'b chat \<Rightarrow> string \<Rightarrow> nat \<Rightarrow> bool" where
  "entry_ok evs w k a \<longleftrightarrow> k \<noteq> '''' \<and> (\<exists>h. chat_objects w a = Some h \<and> handshakes a evs > 0 \<and>
     (handshakes a evs = 1 \<longrightarrow> user_Name (ch_user h) = k))"

lemma entries_ok_step:
  assumes "\<forall>k a. users w k = Some a \<longrightarrow> entry_ok evs w k a"
  shows "\<forall>k a. users (chat_do P ev w) k = Some a \<longrightarrow> entry_ok (evs @ [ev]) (chat_do P ev w) k a"
proof (cases ev)
  case (Attached a cid)
  with assms show ?thesis by (fastforce simp: entry_ok_def handshakes_def)
next
  case (Joining a init)
  then show ?thesis
    using assms
    by (auto simp: join_outcome entry_ok_def handshakes_def split: sum.split option.split) fastforce+
next
  case (Leaving_chat a)
  with assms show ?thesis
    by (auto simp: chat_HandleWebsocketClose_def entry_ok_def handshakes_def Let_def split: option.split)
next
  case (Sending args)
  with assms show ?thesis by (simp add: send_keeps entry_ok_def handshakes_def)
qed

text \<open>
  C31: the table of users is sound in every history of the chat: each entry has a non-empty
  name and points to a handler that was attached and asked about a handshake, and, if that
  happened only once on its connection, to the user of exactly that name.
\<close>

theorem users_point_to_their_handlers:
  assumes "w = fold (chat_do P) evs \<lparr>chat_objects = Map.empty, users = Map.empty, broker = b\<rparr>"
    and "users w k = Some a"
  shows "k \<noteq> '''' \<and> (\<exists>h. chat_objects w a = Some h \<and> handshakes a evs > 0 \<and>
    (handshakes a evs = 1 \<longrightarrow> user_Name (ch_user h) = k))"
proof -
  have "\<forall>k a. users (fold (chat_do P) evs \<lparr>chat_objects = Map.empty, users = Map.empty, broker = b\<rparr>) k = Some a \<longrightarrow>
    entry_ok evs (fold (chat_do P) evs \<lparr>chat_objects = Map.empty, users = Map.empty, broker = b\<rparr>) k a"
  proof (induction evs rule: rev_induct)
    case (snoc ev evs)
    from entries_ok_step [OF this, of P ev] show ?case by simp
  qed simp
  with assms show ?thesis by (simp add: entry_ok_def)
qed

text \<open>Ann joins, a second connection is accepted, its handshake has no name.\<close>

definition chat_history :: "chat_event list" where
  "chat_history = [Attached 1 1, Joining 1 \<lparr>init_Payload = msg_Payload ann_joins\<rparr>, Attached 3 2,
     Joining 3 \<lparr>init_Payload = Some (JObj [])\<rparr>]"

lemma decode_ann_joins: "decode_AuthToken (msg_Payload ann_joins) = Inr \<lparr>auth_AuthToken = ''ann''\<rparr>"
  by (simp add: ann_joins_def decode_AuthToken_def decode_payload_def decode_struct_def
      AuthToken_field_def zero_AuthToken_def)

theorem users_point_to_their_handlers_witness:
  "map_option (\<lambda>h. user_Name (ch_user h))
     (chat_objects (fold (chat_do demo_pool) chat_history empty_chat) 1) = Some ''ann''"
proof -
  have "decode_AuthToken (Some (JObj [])) = Inr \<lparr>auth_AuthToken = ''''\<rparr>"
    by (simp add: decode_AuthToken_def decode_payload_def decode_struct_def zero_AuthToken_def)
  then have u: "users (fold (chat_do demo_pool) chat_history empty_chat) ''ann'' = Some 1"
    by (simp add: chat_history_def join_outcome decode_ann_joins empty_chat_def zero_User_def)
  have "handshakes 1 chat_history = 1" by (simp add: handshakes_def chat_history_def)
  then show ?thesis
    using users_point_to_their_handlers [OF _ u, where evs = chat_history and P = demo_pool and b = "[]"]
    by (auto simp: empty_chat_def)
qed

text \<open>
  Names are not owned.  When two connections join under one name, the table finds the
  second; when the first closes, the second is still connected and still bears the name, but
  the entry is gone, and what its user sends is refused as from a user not found.
\<close>

lemma closing_evicts_a_namesake:
  fixes P :: "'b redis_pool"
  assumes "a \<noteq> b" and "chat_objects w a = Some ha" and "chat_objects w b = Some hb"
    and "decode_AuthToken (init_Payload i) = Inr auth" and "decode_AuthToken (init_Payload j) = Inr auth"
    and "auth_AuthToken auth = x" and "x \<noteq> ''''"
  defines "w1 \<equiv> chat_do P (Joining b j) (chat_do P (Joining a i) w)"
    and "w2 \<equiv> chat_do P (Leaving_chat a) (chat_do P (Joining b j) (chat_do P (Joining a i) w))"
  shows "users w1 x = Some b \<and> users w2 x = None \<and>
    map_option ch_user (chat_objects w2 b) = Some \<lparr>user_Name = x\<rparr> \<and>
    (\<forall>args. args ''user'' = Some (ArgString x) \<longrightarrow>
       send_Resolve P args w2 = (Returns (Inl (user_not_found x)), w2))"
  using assms
  by (auto simp: join_outcome chat_HandleWebsocketClose_def send_Resolve_def Let_def)

lemma closing_evicts_a_namesake_witness:
  "users (chat_do demo_pool (Leaving_chat 1) (chat_do demo_pool (Joining 3 \<lparr>init_Payload = msg_Payload ann_joins\<rparr>)
     (chat_do demo_pool (Joining 1 \<lparr>init_Payload = msg_Payload ann_joins\<rparr>)
       (chat_do demo_pool (Attached 3 2) (chat_do demo_pool (Attached 1 1) empty_chat))))) ''ann'' = None"
proof -
  let ?w = "chat_do demo_pool (Attached 3 2) (chat_do demo_pool (Attached 1 1) empty_chat)"
  have o: "chat_objects ?w 1 = Some \<lparr>ch_conn = 1, ch_user = zero_User\<rparr>"
    "chat_objects ?w 3 = Some \<lparr>ch_conn = 2, ch_user = zero_User\<rparr>"
    by (simp_all add: empty_chat_def)
  have d: "decode_AuthToken (init_Payload \<lparr>init_Payload = msg_Payload ann_joins\<rparr>) = Inr \<lparr>auth_AuthToken = ''ann''\<rparr>"
    by (simp add: decode_ann_joins)
  show ?thesis
    using closing_evicts_a_namesake [OF _ o d d, where x = "''ann''" and P = demo_pool] by simp
qed

text \<open>
  A second handshake on one connection renames its user but leaves the entry of the first
  name, also after the connection has closed: under the old name anybody can send, and what
  is published bears the new one.
\<close>

lemma second_handshake_leaves_a_ghost:
  fixes P :: "'b redis_pool"
  assumes "chat_objects w a = Some h"
    and "decode_AuthToken (init_Payload i) = Inr auth1" and "decode_AuthToken (init_Payload j) = Inr auth2"
    and "auth_AuthToken auth1 = x" and "auth_AuthToken auth2 = y" and "x \<noteq> ''''" and "y \<noteq> ''''" and "x \<noteq> y"
  defines "w1 \<equiv> chat_do P (Leaving_chat a) (chat_do P (Joining a j) (chat_do P (Joining a i) w))"
  shows "users w1 x = Some a \<and> users w1 y = None \<and>
    (\<forall>args t. args ''user'' = Some (ArgString x) \<longrightarrow> args ''text'' = Some (ArgString t) \<longrightarrow>
       fst (send_Resolve P args w1) =
         Returns (Inr (Some \<lparr>message_Text = t, message_User = Some \<lparr>user_Name = y\<rparr>\<rparr>)))"
  using assms
  by (auto simp: join_outcome chat_HandleWebsocketClose_def send_Resolve_def Let_def)

lemma second_handshake_leaves_a_ghost_witness:
  "users (chat_do demo_pool (Leaving_chat 1) (chat_do demo_pool
       (Joining 1 \<lparr>init_Payload = Some (JObj [(''authToken'', JStr ''bob'')])\<rparr>)
     (chat_do demo_pool (Joining 1 \<lparr>init_Payload = msg_Payload ann_joins\<rparr>)
       (chat_do demo_pool (Attached 1 1) empty_chat)))) ''ann'' = Some 1"
proof -
  let ?w = "chat_do demo_pool (Attached 1 1) empty_chat"
  let ?bob = "Some (JObj [(''authToken'', JStr ''bob'')])"
  have o: "chat_objects ?w 1 = Some \<lparr>ch_conn = 1, ch_user = zero_User\<rparr>"
    by (simp add: empty_chat_def)
  have d: "decode_AuthToken (init_Payload \<lparr>init_Payload = msg_Payload ann_joins\<rparr>) = Inr \<lparr>auth_AuthToken = ''ann''\<rparr>"
    "decode_AuthToken (init_Payload \<lparr>init_Payload = ?bob\<rparr>) = Inr \<lparr>auth_AuthToken = ''bob''\<rparr>"
    by (simp add: decode_ann_joins, simp add: decode_AuthToken_def decode_payload_def
        decode_struct_def AuthToken_field_def zero_AuthToken_def)
  show ?thesis
    using second_handshake_leaves_a_ghost [OF o d, where x = "''ann''" and y = "''bob''" and P = demo_pool] by simp
qed

subsection \<open>Subscriptions of the chat\<close>

definition chat_topics :: "User \<Rightarrow> string \<Rightarrow> Topic list" where
  "chat_topics user f = (if f = ''onMessage''
     then [StringTopic (''onDirectMessage.'' @ user_Name user), StringTopic ''onMessage'']
     else [StringTopic f])"

lemma Subscribe_None [simp]: "fst (Subscribe s t) = None"
  by (simp add: Subscribe_def)

lemma chat_simple_field:
  "f = ''onJoin'' \<or> f = ''onLeft'' \<Longrightarrow> subscribes_to (chat_fields hf) x n f [StringTopic f]"
  by (auto simp: subscribes_to_def chat_fields_def onJoin_Subscribe_def onLeft_Subscribe_def
      subscribe_one_def SubscriberSubscribe_def split_beta)

lemma chat_message_field:
  assumes "sub_Connection x = Some cid" and "handlerFromConnection n (hf cid) = Some a"
    and "chat_objects n a = Some h"
  shows "subscribes_to (chat_fields hf) x n ''onMessage'' (chat_topics (ch_user h) ''onMessage'')"
  using assms
  by (auto simp: subscribes_to_def chat_fields_def onMessage_Subscribe_def chat_topics_def
      SubscriberSubscribe_def subscribe_params_def split_beta Subscribe_def)

lemma found_handler: "handlerFromConnection n hs = Some a \<Longrightarrow> \<exists>h. chat_objects n a = Some h"
  by (induction n hs rule: handlerFromConnection.induct) (auto split: if_splits)

lemma chat_fields_without_handler:
  assumes "set fs \<subseteq> {''onJoin'', ''onLeft'', ''onMessage''}" and "''onMessage'' \<in> set fs"
    and "sub_Connection x = Some cid" and "handlerFromConnection n (hf cid) = None"
  shows "\<exists>n'. subscribe_fields (chat_fields hf) x fs s n = (Raises PNilDeref, n')"
proof -
  obtain pre post where fs: "fs = pre @ ''onMessage'' # post" "''onMessage'' \<notin> set pre"
    using split_list_first [OF assms(2)] by blast
  then have "subscribe_fields (chat_fields hf) x pre s n =
      (Returns (Inr (fold (\<lambda>t s. snd (Subscribe s t)) (concat (map (\<lambda>f. [StringTopic f]) pre)) s)), n)"
    using assms(1) by (intro subscribe_fields_topics chat_simple_field) auto
  with fs assms(3,4) show ?thesis
    by (simp add: subscribe_fields_append chat_fields_def onMessage_Subscribe_def subscribe_params_def)
qed

text \<open>
  C30: a subscription to fields of the chat's schema, on a connection whose
  \<open>connectionHandler\<close> is attached, starts one reader that listens to \<open>onJoin\<close> and \<open>onLeft\<close>
  for the fields of these names, and for \<open>onMessage\<close> to the channel of that name and to the
  user's own channel; if \<open>onMessage\<close> is asked for before the \<open>connectionHandler\<close> is attached, the
  subscribe function dereferences nil.
\<close>

theorem chat_subscriptions_follow_the_topics:
  assumes "set (sub_Fields x) \<subseteq> {''onJoin'', ''onLeft'', ''onMessage''}" and "sub_Schema x = Some schema"
    and "sub_Connection x = Some cid"
  shows "case handlerFromConnection (rw_net w) (handlers_of cid) of
      Some a \<Rightarrow> \<exists>h p w'. chat_objects (rw_net w) a = Some h \<and>
        redis_HandleSubscriptionStart (chat_redis handlers_of redis_Dial L) x w = (Returns None, w') \<and>
        load_reader w' (sub_ID x) = Some (length (rw_readers w)) \<and>
        rw_pumps w' = rw_pumps w @ [(length (rw_readers w), p)] \<and> distinct (Topics p) \<and>
        set (Topics p) = (\<Union>f \<in> set (sub_Fields x). set (chat_topics (ch_user h) f))
    | None \<Rightarrow> ''onMessage'' \<in> set (sub_Fields x) \<longrightarrow>
        fst (redis_HandleSubscriptionStart (chat_redis handlers_of redis_Dial L) x w) = Raises PNilDeref"
proof (cases "handlerFromConnection (rw_net w) (handlers_of cid)")
  case None
  then show ?thesis
    using chat_fields_without_handler [OF assms(1) _ assms(3), of "rw_net w" handlers_of NewSubscriber] assms(2)
    by (auto simp: redis_HandleSubscriptionStart_def Let_def chat_redis_def)
next
  case (Some a)
  then obtain h where h: "chat_objects (rw_net w) a = Some h" using found_handler by blast
  have f: "schema_fields (chat_redis handlers_of redis_Dial L) (sub_Schema x) = Returns (chat_fields handlers_of)"
    using assms(2) by (simp add: chat_redis_def)
  have "subscribes_to (chat_fields handlers_of) x (rw_net w) f (chat_topics (ch_user h) f)"
    if "f \<in> set (sub_Fields x)" for f
    using that assms(1) chat_message_field [OF assms(3), of "rw_net w" handlers_of a h, OF Some h]
    by (auto simp: chat_topics_def intro: chat_simple_field)
  from redis_start_run [OF f this] h Some show ?thesis by auto
qed

theorem chat_subscriptions_follow_the_topics_witness:
  "fst (redis_HandleSubscriptionStart demo_chat_redis (redis_sub [''onJoin'', ''onMessage''])
     (no_readers ann_chat)) = Returns None"
proof -
  let ?x = "redis_sub [''onJoin'', ''onMessage'']"
  have x: "set (sub_Fields ?x) \<subseteq> {''onJoin'', ''onLeft'', ''onMessage''}" "sub_Schema ?x = Some 0"
    "sub_Connection ?x = Some 1"
    by (simp_all add: redis_sub_def)
  have "handlerFromConnection (rw_net (no_readers ann_chat)) [HObj 0, HObj 1] = Some 1"
    by (simp add: no_readers_def ann_chat_def)
  then show ?thesis
    using chat_subscriptions_follow_the_topics [OF x, where w = "no_readers ann_chat"
        and handlers_of = "\<lambda>conn. [HObj 0, HObj 1]"
        and redis_Dial = "\<lambda>p a (os :: unit list) n. (Inr 7, n)" and L = quiet_redis]
    by (auto simp: demo_chat_redis_def)
qed

end
