(* ===== verification/EchoServer.thy ===== *)
theory EchoServer
  imports MessageProperties TopicSubscriber
begin

text \<open>
  The example of an echo server (\<open>examples/echo-server/main.go\<close>): its handler, its resolvers and
  its configuration.
\<close>

subsection \<open>The server\<close>

record echo_Message =
  echo_Text :: string

text \<open>The only handler of a connection implements one method, which panics.\<close>

definition echo_HandleSubscriptionStart :: "(Subscription, goerr option, 'w) go_method" where
  "echo_HandleSubscriptionStart subscription w = (Raises (PHandler ''implement me''), w)"

definition echo_methods :: "(Subscription, 'w) methods" where
  "echo_methods = no_methods\<lparr>HandleSubscriptionStart := Some echo_HandleSubscriptionStart\<rparr>"

text \<open>The callback; \<open>h\<close> is the address of the new handler.\<close>

definition echo_callback :: "nat \<Rightarrow> goerr option \<Rightarrow> 'w conn \<Rightarrow> (unit, 'w) cprog" where
  "echo_callback h err c = (case err of Some e \<Rightarrow> Ret () c | None \<Rightarrow> AddHandler (HObj h) c)"

definition echo_query_Resolve :: "goerr + echo_Message option" where
  "echo_query_Resolve = Inr (Some \<lparr>echo_Text = ''Hello world''\<rparr>)"

definition echo_mutation_Resolve :: "(string \<rightharpoonup> argument) \<Rightarrow> (goerr + echo_Message option) call" where
  "echo_mutation_Resolve args = (case string_arg (args ''text'') of
       Raises p \<Rightarrow> Raises p
     | Returns text \<Rightarrow> Returns (Inr (Some \<lparr>echo_Text = text\<rparr>)))"

text \<open>\<open>ctx\<close> are the values of the context that are of type \<open>*Message\<close>.\<close>

definition echo_onMessage_Resolve :: "(string \<rightharpoonup> echo_Message) \<Rightarrow> goerr + echo_Message option" where
  "echo_onMessage_Resolve ctx = (case ctx ''message'' of
       None \<Rightarrow> Inr None | Some message \<Rightarrow> Inr (Some message))"

definition echo_onMessage_Subscribe :: "subscriber \<Rightarrow> goerr option \<times> subscriber" where
  "echo_onMessage_Subscribe subscriber = SubscriberSubscribe subscriber (TopicValue (StringTopic ''onMessage''))"

text \<open>The configuration: a pong is expected within a second.\<close>

definition echo_config :: config_values where
  "echo_config = built (cf_PongWait time_Second (NewConfigFactory initial_store))"

subsection \<open>Properties\<close>

lemma echo_config_eq: "echo_config = \<lparr>ReadLimit = Some 5120, PongWait = Some 1000000000,
    WriteTimeout = Some 15000000000\<rparr>"
  by code_simp

lemma echo_ticker: "ticker_ok (ping_interval (pong_wait echo_config))"
  by code_simp

lemma echo_methods_simps [simp]:
  "HandlePanic echo_methods = None" "HandleConnectionStart echo_methods = None"
  "HandleWebsocketClose echo_methods = None"
  "HandleSubscriptionStart echo_methods = Some echo_HandleSubscriptionStart"
  by (simp_all add: echo_methods_def)

text \<open>
  No subscription of the echo server is ever served.  A \<open>start\<close> that is accepted is
  entered into the table and then panics in the handler; the unwinding of \<open>processMessages\<close>
  contains the panic and closes the connection, so that the client sees its websocket closed
  without a message queued for it.
\<close>

lemma echo_server_closes_on_subscription:
  assumes "open_conn c" and "c_state c = connStateEstablished" and "c_Handlers c = [HObj h]"
    and "impls E h = echo_methods" and "msg_Type m = ''start''"
    and "decode_GQLObject (msg_Payload m) = Inr payload"
    and "accepted_subscription E \<lparr>start_ID = msg_ID m, start_Payload = payload\<rparr> c = Some s"
  shows "\<exists>c'. run (processIncomeMessage E (Msg m) c) = Panicked (PHandler ''implement me'') c' \<and>
    map_load (c_Subscriptions c') (msg_ID m) = Some s \<and>
    run (processMessages_exit E (Some (PHandler ''implement me'')) c') =
      Done () (closed_conn (snd (ws_Close E (c_world c))) c') \<and>
    c_outgoing c' = c_outgoing c"
proof -
  let ?s = "\<lparr>start_ID = msg_ID m, start_Payload = payload\<rparr>"
  let ?c = "addSubscription s c"
  have calls: "start_calls E ?s c = (None, c_world c)"
    using assms(3,4) by (simp add: start_calls_def handler_call_def)
  have ann: "announced E s c (c_world c) = (Inl (PHandler ''implement me''), c_world c)"
    using assms(3,4) by (simp add: announced_def handler_call_def echo_HandleSubscriptionStart_def)
  have "sub_ID s = msg_ID m"
    using assms(7) by (auto simp: accepted_subscription_def split: if_splits sum.splits)
  have panics: "run (processIncomeMessage E (Msg m) c) = Panicked (PHandler ''implement me'') ?c"
    using assms(2,5-7) open_connD [OF assms(1)] calls ann
    by (simp add: processIncomeMessage_cases process_start_def run_simps run_gqlStart addSubscription_def)
  have o: "open_conn ?c" using assms(1) by (simp add: open_conn_def idle_def addSubscription_def)
  have hs: "c_Handlers ?c = [HObj h]" "c_world ?c = c_world c"
    using assms(3) by (simp_all add: addSubscription_def)
  have "closed_by E ?c = (Inr Completed, c_world c)"
    using assms(4) hs by (simp add: closed_by_def handler_call_def)
  then have close: "run (close E ?c) = Done (fst (ws_Close E (c_world c)))
      (closed_conn (snd (ws_Close E (c_world c))) ?c)"
    by (simp add: run_close_open [OF o] split_beta)
  moreover have "idle (closed_conn w ?c)" "c_state (closed_conn w ?c) = connStateClosed" for w
    using open_connD(1) [OF o] by (simp_all add: closed_conn_def idle_def)
  moreover have "loop_spec (handler_call HandlePanic (Write, PHandler ''implement me'') E)
      (until_propagation_stopped :: unit reaction) (c_Handlers (closed_conn w ?c)) w = (Inr Completed, w)" for w
    using assms(4) hs by (simp add: closed_conn_def handler_call_def)
  ultimately have "run (processMessages_exit E (Some (PHandler ''implement me'')) ?c) =
      Done () (closed_conn (snd (ws_Close E (c_world c))) ?c)"
    by (simp add: processMessages_exit_def run_simps run_recover) (simp add: closed_conn_def)
  with panics \<open>sub_ID s = msg_ID m\<close> show ?thesis
    by (simp add: addSubscription_def map_load_def map_store_def)
qed

definition echo_env :: "string list env" where
  "echo_env = demo\<lparr>impls := (\<lambda>n. echo_methods)\<rparr>"

lemma echo_server_closes_on_subscription_witness:
  "\<exists>c. run (processIncomeMessage echo_env (Msg start_msg) (conn_with connStateEstablished [HObj 0])) =
      Panicked (PHandler ''implement me'') c \<and>
    map_load (c_Subscriptions c) ''7'' = Some demo_subscription"
proof -
  let ?c = "conn_with connStateEstablished [HObj 0]"
  have o: "open_conn ?c" by (rule open_conn_with) simp
  have st: "\<lparr>start_ID = msg_ID start_msg,
      start_Payload = \<lparr>obj_Query = ''q'', obj_Variables = None, obj_OperationName = ''''\<rparr>\<rparr> = demo_start"
    by (simp add: start_msg_def demo_start_def)
  have acc: "accepted_subscription echo_env demo_start ?c = Some demo_subscription"
    unfolding accepted_demo [of connStateEstablished "[HObj 0]", symmetric]
    by (simp add: echo_env_def accepted_subscription_def demo_env_def)
  have f: "c_state ?c = connStateEstablished" "c_Handlers ?c = [HObj 0]" "impls echo_env 0 = echo_methods"
    "msg_Type start_msg = ''start''" "msg_ID start_msg = ''7''"
    by (simp_all add: echo_env_def start_msg_def)
  show ?thesis
    using echo_server_closes_on_subscription [OF o f(1-4) decode_start_msg, unfolded st, OF acc] f(5)
    by auto
qed

end
