(* ===== verification/ServerSetup.thy ===== *)
theory ServerSetup
  imports HttpUpgrade ChatServer EchoServer
begin

text \<open>
  The functions \<open>main\<close> of the two example programs: the schemas as data, the tests of Redis, the
  configuration, and what is served under which path.  The last part follows a client from its
  HTTP request to the chat.
\<close>

subsection \<open>Schemas\<close>

text \<open>
  The configuration of a schema: of a field, its type and arguments and which of the functions
  \<open>Resolve\<close> and \<open>Subscribe\<close> are given.  The functions themselves are in \<open>ChatServer\<close> and
  \<open>EchoServer\<close>.
\<close>

datatype gql_type = GString | GNonNull gql_type | GObject string "(string \<times> gql_type) list"

record gql_field =
  fd_Type :: gql_type
  fd_Args :: "(string \<times> gql_type) list"
  fd_Resolve :: bool
  fd_Subscribe :: bool

record gql_object =
  obj_Name :: string
  obj_Fields :: "(string \<times> gql_field) list"

record SchemaConfig =
  sc_Query :: gql_object
  sc_Mutation :: gql_object
  sc_Subscription :: gql_object

definition userType :: gql_type where
  "userType = GObject ''User'' [(''name'', GString)]"

definition messageType :: gql_type where
  "messageType = GObject ''Message'' [(''text'', GString), (''user'', userType)]"

definition resolved :: "gql_type \<Rightarrow> (string \<times> gql_type) list \<Rightarrow> gql_field" where
  "resolved t args = \<lparr>fd_Type = t, fd_Args = args, fd_Resolve = True, fd_Subscribe = False\<rparr>"

definition subscribed_field :: "gql_type \<Rightarrow> gql_field" where
  "subscribed_field t = \<lparr>fd_Type = t, fd_Args = [], fd_Resolve = True, fd_Subscribe = True\<rparr>"

definition chat_schemaConfig :: SchemaConfig where
  "chat_schemaConfig =
    \<lparr>sc_Query = \<lparr>obj_Name = ''RootQuery'', obj_Fields = [(''me'', resolved userType [])]\<rparr>,
     sc_Mutation = \<lparr>obj_Name = ''MutationRoot'', obj_Fields = [(''send'',
       resolved messageType [(''user'', GNonNull GString), (''text'', GNonNull GString)])]\<rparr>,
     sc_Subscription = \<lparr>obj_Name = ''SubscriptionRoot'', obj_Fields =
       [(''onJoin'', subscribed_field userType), (''onLeft'', subscribed_field userType),
        (''onMessage'', subscribed_field messageType)]\<rparr>\<rparr>"

definition echo_messageType :: gql_type where
  "echo_messageType = GObject ''Message'' [(''text'', GString)]"

definition echo_schemaConfig :: SchemaConfig where
  "echo_schemaConfig =
    \<lparr>sc_Query = \<lparr>obj_Name = ''RootQuery'', obj_Fields = [(''message'', resolved echo_messageType [])]\<rparr>,
     sc_Mutation = \<lparr>obj_Name = ''MutationRoot'', obj_Fields =
       [(''message'', resolved echo_messageType [(''text'', GNonNull GString)])]\<rparr>,
     sc_Subscription = \<lparr>obj_Name = ''SubscriptionRoot'', obj_Fields =
       [(''onMessage'', subscribed_field echo_messageType)]\<rparr>\<rparr>"

subsection \<open>The tests of Redis\<close>

text \<open>
  The library: dialing, taking a connection from the pool, and of a connection its error,
  a command without arguments, and its close.  The state \<open>'b\<close> is that of Redis.
\<close>

record ('o, 'b) redigo =
  rg_Dial :: "string \<Rightarrow> string \<Rightarrow> 'o list \<Rightarrow> 'b \<Rightarrow> (goerr + nat) \<times> 'b"
  rg_Get :: "'b \<Rightarrow> nat \<times> 'b"
  rg_Err :: "nat \<Rightarrow> 'b \<Rightarrow> goerr option \<times> 'b"
  rg_Do :: "nat \<Rightarrow> string \<Rightarrow> 'b \<Rightarrow> goerr option \<times> 'b"
  rg_Close :: "nat \<Rightarrow> 'b \<Rightarrow> goerr option \<times> 'b"

text \<open>The functions of the pool; \<open>since\<close> is the time since the connection was returned.\<close>

definition pool_Dial :: "('o, 'b) redigo \<Rightarrow> 'b \<Rightarrow> (goerr + nat) \<times> 'b" where
  "pool_Dial R = rg_Dial R ''tcp'' ''localhost:6379'' []"

definition pool_TestOnBorrow :: "('o, 'b) redigo \<Rightarrow> nat \<Rightarrow> int64 \<Rightarrow> 'b \<Rightarrow> goerr option \<times> 'b" where
  "pool_TestOnBorrow R c since b =
    (if sint since < sint (time_Second * 10) then (None, b)
     else case rg_Err R c b of
         (Some e, b) \<Rightarrow> rg_Err R c b
       | (None, b) \<Rightarrow> rg_Do R c ''PING'' b)"

text \<open>\<open>os.Exit\<close> ends the program without the deferred close.\<close>

datatype startup = Goes_on | Exits int

definition ping_once :: "('o, 'b) redigo \<Rightarrow> nat \<Rightarrow> 'b \<Rightarrow> startup \<times> 'b" where
  "ping_once R redisConn b = (case rg_Do R redisConn ''PING'' b of
       (Some err, b) \<Rightarrow> (Exits 1, b)
     | (None, b) \<Rightarrow> (Goes_on, snd (rg_Close R redisConn b)))"

definition test_dialer :: "('o, 'b) redigo \<Rightarrow> 'b \<Rightarrow> startup \<times> 'b" where
  "test_dialer R b = (case dialer_Dial (rg_Dial R) redisDialer b of
       (Inl err, b) \<Rightarrow> (Exits 1, b)
     | (Inr redisConn, b) \<Rightarrow> ping_once R redisConn b)"

definition test_pool :: "('o, 'b) redigo \<Rightarrow> 'b \<Rightarrow> startup \<times> 'b" where
  "test_pool R b = (case rg_Get R b of (redisConn, b) \<Rightarrow> ping_once R redisConn b)"

subsection \<open>What is served\<close>

text \<open>
  The upgrader allocated at the address \<open>a\<close>, and the configurations.  A schema is known by its
  address.  \<open>CheckOrigin\<close>, which the chat server sets, is consulted by the library only, within
  \<open>lib_Upgrade\<close>.
\<close>

definition chat_HandlerConfig :: "nat \<Rightarrow> nat \<Rightarrow> HandlerConfig" where
  "chat_HandlerConfig schema a =
     hcf_Build (hcf_Upgrader (Some a) (hcf_Schema (Some schema) NewHandlerConfigFactory))"

definition echo_HandlerConfig :: "nat \<Rightarrow> nat \<Rightarrow> HandlerConfig" where
  "echo_HandlerConfig schema a =
     hcf_Build (hcf_Schema (Some schema) (hcf_Upgrader (Some a) NewHandlerConfigFactory))"

definition chat_config :: config_values where
  "chat_config = built (NewConfigFactory initial_store)"

definition fresh_upgrader :: "nat \<Rightarrow> (nat \<Rightarrow> gorillaUpgrader) \<Rightarrow> nat \<Rightarrow> gorillaUpgrader" where
  "fresh_upgrader a us = us(a := NewUpgrader \<lparr>Subprotocols = None\<rparr>)"

datatype route = Graphql nat | Subscriptions nat nat

text \<open>The program has ended, has panicked, or serves routes at an address.\<close>

datatype program = Ended_with int | Ended_by panic | Serves string "string \<rightharpoonup> route"

definition chat_serves ::
  "nat \<Rightarrow> nat \<Rightarrow> (nat \<Rightarrow> gorillaUpgrader) \<Rightarrow> program \<times> (nat \<Rightarrow> gorillaUpgrader)" where
  "chat_serves schema a us = (case NewHttpHandler (chat_HandlerConfig schema a) (fresh_upgrader a us) of
       (Raises p, us) \<Rightarrow> (Ended_by p, us)
     | (Returns (u, s), us) \<Rightarrow> (Serves '':8085''
         [''/graphql'' \<mapsto> Graphql schema, ''/subscriptions'' \<mapsto> Subscriptions u s], us))"

text \<open>\<open>newSchema\<close> is what \<open>graphql.NewSchema\<close> makes of a configuration.\<close>

definition chat_main ::
  "('o, 'b) redigo \<Rightarrow> (SchemaConfig \<Rightarrow> goerr + nat) \<Rightarrow> nat \<Rightarrow> (nat \<Rightarrow> gorillaUpgrader) \<Rightarrow> 'b \<Rightarrow>
    program \<times> (nat \<Rightarrow> gorillaUpgrader) \<times> 'b" where
  "chat_main R newSchema a us b = (case test_dialer R b of
       (Exits n, b) \<Rightarrow> (Ended_with n, us, b)
     | (Goes_on, b) \<Rightarrow> (case test_pool R b of
           (Exits n, b) \<Rightarrow> (Ended_with n, us, b)
         | (Goes_on, b) \<Rightarrow> (case newSchema chat_schemaConfig of
               Inl err \<Rightarrow> (Ended_with 1, us, b)
             | Inr schema \<Rightarrow> (case chat_serves schema a us of (p, us) \<Rightarrow> (p, us, b)))))"

text \<open>
  The echo server only logs an invalid schema and goes on with the one it was given, whose
  address is \<open>schema\<close> in either case.
\<close>

definition echo_main ::
  "nat \<Rightarrow> nat \<Rightarrow> (nat \<Rightarrow> gorillaUpgrader) \<Rightarrow> program \<times> (nat \<Rightarrow> gorillaUpgrader)" where
  "echo_main schema a us = (case NewHttpHandler (echo_HandlerConfig schema a) (fresh_upgrader a us) of
       (Raises p, us) \<Rightarrow> (Ended_by p, us)
     | (Returns (u, s), us) \<Rightarrow> (Serves '':40385'' [''/subscriptions'' \<mapsto> Subscriptions u s], us))"

subsection \<open>Facts about the set-up\<close>

lemmas config_defs = chat_HandlerConfig_def echo_HandlerConfig_def handler_factory_defs

text \<open>The fields of the schema's subscription type are those the subscribe functions are for.\<close>

lemma schema_subscribes:
  "map_of (obj_Fields (sc_Subscription chat_schemaConfig)) f \<noteq> None \<longleftrightarrow>
    (\<exists>F. chat_fields hf f = Some F \<and> f_Subscribe F \<noteq> None)"
  by (auto simp: chat_schemaConfig_def chat_fields_def)

lemma chat_serves_eq:
  "chat_serves schema a us = (Serves '':8085''
     [''/graphql'' \<mapsto> Graphql schema, ''/subscriptions'' \<mapsto> Subscriptions a schema],
     (fresh_upgrader a us)(a := AddSubprotocol ''graphql-ws'' (NewUpgrader \<lparr>Subprotocols = None\<rparr>)))"
  by (simp add: chat_serves_def NewHttpHandler_def config_defs fresh_upgrader_def)

lemma echo_main_eq:
  "echo_main schema a us = (Serves '':40385'' [''/subscriptions'' \<mapsto> Subscriptions a schema],
     (fresh_upgrader a us)(a := AddSubprotocol ''graphql-ws'' (NewUpgrader \<lparr>Subprotocols = None\<rparr>)))"
  by (simp add: echo_main_def NewHttpHandler_def config_defs fresh_upgrader_def)

text \<open>The pool and the dialer reach the same Redis; a failed test ends the program before anything is served.\<close>

lemma pool_Dial_eq: "pool_Dial R = dialer_Dial (rg_Dial R) redisDialer"
  by (simp add: pool_Dial_def dialer_Dial_def redisDialer_def NewDialer_def)

lemma chat_main_exits:
  "(\<exists>address routes. fst (chat_main R newSchema a us b) = Serves address routes) \<or>
   (\<exists>b'. chat_main R newSchema a us b = (Ended_with 1, us, b'))"
  by (auto simp: chat_main_def chat_serves_eq test_dialer_def test_pool_def ping_once_def
      split: prod.split sum.split option.split)

text \<open>A Redis that does not answer the first \<open>PING\<close>: the connection is not closed.\<close>

lemma exit_leaves_the_connection_open:
  assumes "pool_Dial R b = (Inr k, b1)" and "rg_Do R k ''PING'' b1 = (Some e, b2)"
  shows "chat_main R newSchema a us b = (Ended_with 1, us, b2)"
  using assms by (simp add: chat_main_def test_dialer_def ping_once_def pool_Dial_eq)

lemma chat_config_eq: "chat_config = \<lparr>ReadLimit = Some 5120, PongWait = Some 60000000000,
    WriteTimeout = Some 15000000000\<rparr>"
  by code_simp

subsection \<open>From the request to the chat\<close>

lemma chat_main_serves:
  assumes "chat_main R newSchema a us b = (Serves address routes, us', b')"
  shows "\<exists>schema. newSchema chat_schemaConfig = Inr schema \<and>
    routes ''/subscriptions'' = Some (Subscriptions a schema) \<and>
    us' a = AddSubprotocol ''graphql-ws'' (NewUpgrader \<lparr>Subprotocols = None\<rparr>)"
  using assms
  by (auto simp: chat_main_def chat_serves_eq split: prod.splits startup.splits sum.splits)

lemma chat_serve_accepts:
  assumes "negotiates L offered" and "''graphql-ws'' \<in> set (offered rq)"
    and "Upgrade L (AddSubprotocol ''graphql-ws'' (NewUpgrader \<lparr>Subprotocols = None\<rparr>)) rq w = (Inr ws, w')"
  shows "serve L (AddSubprotocol ''graphql-ws'' (NewUpgrader \<lparr>Subprotocols = None\<rparr>)) schema config rq count w =
    ((Some (snd (NewConn (Some schema) config count w')), None), count + 1, w')"
proof -
  let ?us = "fresh_upgrader 0 (\<lambda>_. undefined)"
  have n: "NewHttpHandler (chat_HandlerConfig schema 0) ?us =
      (Returns (0, schema), ?us(0 := AddSubprotocol ''graphql-ws'' (NewUpgrader \<lparr>Subprotocols = None\<rparr>)))"
    by (simp add: NewHttpHandler_def config_defs fresh_upgrader_def)
  show ?thesis
    using serve_outcome [OF assms(1) n] assms(2,3)
    by (simp add: fresh_upgrader_def listed_def NewUpgrader_def)
qed

text \<open>What a first message is answered with, the callback having attached its handlers.\<close>

definition welcomed :: "nat \<Rightarrow> AuthToken \<Rightarrow> 'b chat \<Rightarrow> 'b chat redis_world conn \<Rightarrow> bool" where
  "welcomed ah auth chat c \<longleftrightarrow> c_state c = connStateEstablished \<and>
     chan_buf (c_outgoing c) = [Msg gqlConnectionAck_message] \<and>
     users (chat_of c) = (users chat)(auth_AuthToken auth \<mapsto> ah) \<and>
     map_option ch_user (chat_objects (chat_of c) ah) = Some \<lparr>user_Name = auth_AuthToken auth\<rparr>"

definition turned_away :: "'b chat \<Rightarrow> 'b chat redis_world conn \<Rightarrow> bool" where
  "turned_away chat c \<longleftrightarrow> c_state c = connStateInitializing \<and> users (chat_of c) = users chat \<and>
     Msg gqlConnectionAck_message \<notin> set (chan_buf (c_outgoing c))"

lemma first_message_outcome:
  assumes "open_conn c" and "chat_conn E L P a c" and "chat_objects (chat_of c) a = Some handler"
    and "msg_Type m = ''connection_init''" and "has_room (c_outgoing c)" and "has_room (c_incoming c)"
    and "c_state c = connStateInitializing" and "chan_buf (c_outgoing c) = []"
    and "users (chat_of c) = users chat"
  shows "\<exists>c'. run (processIncomeMessage E (Msg m) c) = Done () c' \<and>
    (case decode_AuthToken (msg_Payload m) of
       Inr auth \<Rightarrow> if auth_AuthToken auth \<noteq> '''' then welcomed a auth chat c'
                   else turned_away chat c'
     | Inl e \<Rightarrow> turned_away chat c')"
  using chat_join_run [OF assms(1-6)] assms(7-9)
  by (cases "decode_AuthToken (msg_Payload m)")
    (auto simp: welcomed_def turned_away_def gqlConnectionAck_message_def gql_type_defs
      zero_OperationMessage_def)

text \<open>
  C27: a client of the chat server.  If the server serves, then a request for \<open>/subscriptions\<close>
  that can be upgraded and offers \<open>graphql-ws\<close> becomes a connection with the default
  configuration, to which the callback attaches the Redis handler and a new
  \<open>connectionHandler\<close>.  If the client's first message, read once \<open>readPump\<close> has set the state, is a
  handshake with a name, the connection is established, the acknowledgement is the first message
  the client will get, and the chat finds it under its name.  A handshake without a name, or one
  that cannot be decoded, is not acknowledged, and nobody joins.
\<close>

theorem client_joins_the_chat:
  assumes "chat_main R newSchema a us b = (Serves address routes, us', b')"
    and "negotiates L offered" and "''graphql-ws'' \<in> set (offered rq)"
    and "Upgrade L (us' a) rq w = (Inr ws, w')"
    and "impls E r = redis_methods Lr" and "impls E ah = chat_methods P ah"
    and "msg_Type m = ''connection_init''"
  shows "\<exists>schema c cc c'. routes ''/subscriptions'' = Some (Subscriptions a schema) \<and>
    serve L (us' a) schema chat_config rq count w = ((Some c, None), count + 1, w') \<and>
    c_config c = \<lparr>ReadLimit = Some 5120, PongWait = Some 60000000000, WriteTimeout = Some 15000000000\<rparr> \<and>
    run (chat_callback r ah None c) = Done () cc \<and> c_Handlers cc = [HObj r, HObj ah] \<and>
    run (processIncomeMessage E (Msg m) (cc\<lparr>c_state := connStateInitializing\<rparr>)) = Done () c' \<and>
    (case decode_AuthToken (msg_Payload m) of
       Inr auth \<Rightarrow> if auth_AuthToken auth \<noteq> '''' then welcomed ah auth (rw_net w') c'
                   else turned_away (rw_net w') c'
     | Inl e \<Rightarrow> turned_away (rw_net w') c')"
proof -
  obtain schema where s: "routes ''/subscriptions'' = Some (Subscriptions a schema)"
    "us' a = AddSubprotocol ''graphql-ws'' (NewUpgrader \<lparr>Subprotocols = None\<rparr>)"
    using chat_main_serves [OF assms(1)] by blast
  let ?c = "snd (NewConn (Some schema) chat_config count w')"
  have v: "serve L (us' a) schema chat_config rq count w = ((Some ?c, None), count + 1, w')"
    using chat_serve_accepts [OF assms(2,3)] assms(4) s(2) by simp
  let ?h = "\<lparr>ch_conn = c_id ?c, ch_user = zero_User\<rparr>"
  let ?cc = "on_world (\<lambda>w. w\<lparr>rw_net := (rw_net w)\<lparr>chat_objects := (chat_objects (rw_net w))(ah \<mapsto> ?h)\<rparr>\<rparr>)
    (?c\<lparr>c_Handlers := c_Handlers ?c @ [HObj r, HObj ah]\<rparr>)"
  let ?ci = "?cc\<lparr>c_state := connStateInitializing\<rparr>"
  have r: "run (chat_callback r ah None ?c) = Done () ?cc"
    by (rule chat_callback_run [OF idle_NewConn])
  have f: "open_conn ?ci" "chat_conn E Lr P ah ?ci" "chat_objects (chat_of ?ci) ah = Some ?h"
    "has_room (c_outgoing ?ci)" "has_room (c_incoming ?ci)" "c_state ?ci = connStateInitializing"
    "chan_buf (c_outgoing ?ci) = []" "users (chat_of ?ci) = users (rw_net w')"
    "c_Handlers ?cc = [HObj r, HObj ah]"
    using assms(5,6)
    by (simp_all add: open_conn_def idle_def NewConn_def on_world_def chat_conn_def chat_of_def
        has_room_def make_chan_def)
  obtain c' where c': "run (processIncomeMessage E (Msg m) ?ci) = Done () c'"
    "case decode_AuthToken (msg_Payload m) of
       Inr auth \<Rightarrow> if auth_AuthToken auth \<noteq> '''' then welcomed ah auth (rw_net w') c'
                   else turned_away (rw_net w') c'
     | Inl e \<Rightarrow> turned_away (rw_net w') c'"
    using first_message_outcome [OF f(1-3) assms(7) f(4-8)] by blast
  have g: "c_config ?c = \<lparr>ReadLimit = Some 5120, PongWait = Some 60000000000, WriteTimeout = Some 15000000000\<rparr>"
    by (simp add: NewConn_def chat_config_eq)
  show ?thesis
    by (rule exI [of _ schema], rule exI [of _ ?c], rule exI [of _ ?cc], rule exI [of _ c'])
      (intro conjI s(1) v g r f(9) c')
qed

text \<open>Redis that answers, and a library that negotiates, for the example.\<close>

definition ready_redis :: "(unit, unit) redigo" where
  "ready_redis = \<lparr>rg_Dial = (\<lambda>n a os. Pair (Inr 0)), rg_Get = Pair 1, rg_Err = (\<lambda>k. Pair None),
     rg_Do = (\<lambda>k cmd. Pair None), rg_Close = (\<lambda>k. Pair None)\<rparr>"

definition chat_lib :: "(string list, string, json list chat redis_world) http_lib" where
  "chat_lib = \<lparr>lib_Upgrade = (\<lambda>u r h w. (Inr (case Subprotocols u of None \<Rightarrow> ''''
       | Some ps \<Rightarrow> (case preferred ps r of None \<Rightarrow> '''' | Some p \<Rightarrow> p)), w)),
     ws_Subprotocol = (\<lambda>p. p), socket_Close = (\<lambda>p. Pair None)\<rparr>"

lemma ready_main:
  "\<exists>routes us'. chat_main ready_redis (\<lambda>cfg. Inr 3) 0 us () = (Serves '':8085'' routes, us', ()) \<and>
     us' 0 = AddSubprotocol ''graphql-ws'' (NewUpgrader \<lparr>Subprotocols = None\<rparr>)"
  by (simp add: chat_main_def test_dialer_def test_pool_def ping_once_def ready_redis_def
      dialer_Dial_def redisDialer_def NewDialer_def chat_serves_eq)

theorem client_joins_the_chat_witness:
  "\<exists>c c'. run (chat_callback 0 1 None c) = Done () (c' :: json list chat redis_world conn) \<and>
     (\<exists>c''. run (processIncomeMessage chat_env (Msg ann_joins) (c'\<lparr>c_state := connStateInitializing\<rparr>)) =
       Done () c'' \<and> users (chat_of c'') ''ann'' = Some 1)"
proof -
  obtain routes us' where m: "chat_main ready_redis (\<lambda>cfg. Inr 3) 0 (\<lambda>_. undefined) () = (Serves '':8085'' routes, us', ())"
    and u: "us' 0 = AddSubprotocol ''graphql-ws'' (NewUpgrader \<lparr>Subprotocols = None\<rparr>)"
    using ready_main by blast
  have n: "negotiates chat_lib (\<lambda>r. r)" by (simp add: negotiates_def chat_lib_def)
  have up: "Upgrade chat_lib (us' 0) [''graphql-ws''] (no_readers empty_chat) = (Inr ''graphql-ws'', no_readers empty_chat)"
    by (simp add: u Upgrade_def chat_lib_def AddSubprotocol_def NewUpgrader_def)
  have i: "impls chat_env 0 = redis_methods demo_chat_redis" "impls chat_env 1 = chat_methods demo_pool 1"
    "msg_Type ann_joins = ''connection_init''"
    by (simp_all add: chat_env_def ann_joins_def)
  have d: "decode_AuthToken (msg_Payload ann_joins) = Inr \<lparr>auth_AuthToken = ''ann''\<rparr>"
    by (simp add: ann_joins_def decode_AuthToken_def decode_payload_def decode_struct_def
        AuthToken_field_def zero_AuthToken_def)
  show ?thesis
    using client_joins_the_chat [OF m n _ up i, of 0] d by (fastforce simp: welcomed_def)
qed

end
