(* ===== verification/Spec2Isabelle.thy ===== *)
theory Spec2Isabelle
  imports PeerMessages RedisEnding LockDiscipline SubscriptionTable ServerSetup
begin

text \<open>
  A model of \<open>go-graphqlws\<close>, a Go library that serves GraphQL subscriptions over websockets with
  the \<open>graphql-ws\<close> protocol, and what makes it correct.

  \<^bold>\<open>The program.\<close>  An HTTP request is upgraded to a websocket (\<open>http_handler.go\<close>, \<open>upgrader.go\<close>)
  and becomes a \<open>Conn\<close> (\<open>connection.go\<close>) with two goroutines: \<open>readPump\<close> decodes the peer's
  messages (\<open>structs.go\<close>) and queues them, \<open>processMessages\<close> takes them from the queue, calls
  the user's handlers (\<open>handlers.go\<close>), keeps the table of subscriptions (\<open>subscription.go\<close>,
  \<open>ast.go\<close>) and writes the outgoing queue.  Users call the exported methods from goroutines of
  their own.  A handler may feed subscriptions from Redis (\<open>redis/handler.go\<close>,
  \<open>redis/reader.go\<close>): it collects topics (\<open>subscriber.go\<close>) and starts one reading goroutine per
  subscription, which dials Redis (\<open>redis/dialer.go\<close>).  Two programs show how to use it all
  (\<open>examples/\<close>).

  \<^bold>\<open>How code is modelled.\<close>  A routine is a \<open>prog\<close> (\<open>GoPrelude\<close>) over the state of a connection:
  it returns, panics, or waits under a condition with the rest of the routine as a
  continuation.  Locks, channel operations, sleeps and blocking reads are such waits, so one
  definition of a routine serves both to run it alone (\<open>run\<close>) and to interleave it with others
  (\<open>Interleaving\<close>).  Panics are values; \<open>defer\<close> is \<open>finally_do\<close> and \<open>catch_panic\<close>.  Channels have
  their buffer, capacity, closed flag and, as history, what was taken.  Errors are the values of
  \<open>goerr\<close>, with nil as \<open>None\<close>.  64-bit integers are words (\<open>Configuration\<close>).

  \<^bold>\<open>Theories.\<close>
  \<^item> \<open>GoPrelude\<close>: routines, rely and guarantee, channels, maps; locales \<open>keyed_table\<close>.
  \<^item> \<open>JsonValue\<close>, \<open>GoErrors\<close>, \<open>Structs\<close>: JSON as \<open>encoding/json\<close> treats it, \<open>errors.go\<close>,
    \<open>structs.go\<close>.
  \<^item> \<open>DocumentFields\<close> (\<open>ast.go\<close>), \<open>Subscriptions\<close> (\<open>subscription.go\<close>), \<open>TopicSubscriber\<close>
    (\<open>subscriber.go\<close>; locale \<open>topic_accumulator\<close>).
  \<^item> \<open>Configuration\<close> (\<open>config.go\<close> and the ticker of \<open>processMessages\<close>; locale
    \<open>independent_options\<close>): pointers into an explicit store, since the factory starts with the
    pointers of \<open>DefaultConfig\<close>.
  \<^item> \<open>HandlerLoops\<close> (\<open>handlers.go\<close>): handlers, and the loop over them that every event uses, with
    its four ways to treat an error.
  \<^item> \<open>Connection\<close>: the record \<open>conn\<close> (\<open>Conn\<close>), the record \<open>env\<close> of what lies outside, sending,
    closing, registration of handlers.  \<open>Processing\<close>: the bodies of both goroutines, from a
    frame to the table of subscriptions.  \<open>MessageProperties\<close>: what each message type does.
  \<^item> \<open>Guarantees\<close>: locales \<open>conn_guarantee\<close>, \<open>reader_guarantee\<close>, \<open>processor_guarantee\<close>; every
    operation, whatever the others do while it waits, only makes steps a relation allows.
    \<open>Interleaving\<close>: goroutines and the step relation \<open>sys_step\<close>, also as the function \<open>fire\<close>.
    \<open>SystemInvariants\<close> interprets the locales and carries the guarantees to all reachable
    states.  \<open>SystemProperties\<close>: the properties of every interleaving, and executions.
    \<open>PeerMessages\<close>: what the peer sends is what \<open>processMessages\<close> takes.
  \<^item> \<open>LockDiscipline\<close>: which locks a routine holds at each point where it waits.
    \<open>TurnBounds\<close>: how many such points a turn of a loop or a call has.
  \<^item> \<open>HttpUpgrade\<close> (\<open>http_handler.go\<close>, \<open>upgrader.go\<close>; locale \<open>subprotocol_list\<close>), \<open>RedisHandler\<close>
    (\<open>redis/handler.go\<close>, \<open>redis/dialer.go\<close>) and \<open>RedisReader\<close> (\<open>redis/reader.go\<close>).
  \<^item> \<open>ConnectionRelations\<close>: the locale \<open>connection_relation\<close> carries a relation between the states of
    a connection through every interleaving.
  \<^item> \<open>Outbox\<close>: what a connection promises to those who send, as an abstract machine
    (\<open>outbox_step\<close>), which every interleaving refines, with what the peer is written.
    \<open>SubscriptionTable\<close>: the table of subscriptions as a function of the messages taken (\<open>replay\<close>).
  \<^item> \<open>RedisSystem\<close>: the goroutines of a connection interleaved with any number of reading
    goroutines of its Redis handler (\<open>rfire\<close>).  Locale \<open>world_guarantee\<close>, a \<open>connection_relation\<close> for
    the outside state, serves the former, \<open>pump_relation\<close> the latter.  \<open>RedisWire\<close>: the outbox
    in this system, and the way of a message from Redis to the websocket.  \<open>RedisEnding\<close>: the
    goroutine of a closed reader ends.
  \<^item> \<open>ChatServer\<close>, \<open>EchoServer\<close>: the handlers and the schemas' functions of the programs under
    \<open>examples/\<close>, as clients of the library.  \<open>ServerSetup\<close>: their functions \<open>main\<close>, up to the
    routes they serve.
  \<^item> This theory: the properties of a connection that is fed from Redis.

  \<^bold>\<open>What is shown.\<close>  In every interleaving the queues stay within their ten places, are closed in
  order, the messages processed are those the peer sent, in order, each once, no subscription is
  registered before the handshake was acknowledged, and a goroutine never goes back to an earlier
  phase.  Locks exclude each other and are free whenever nobody waits; a turn of \<open>processMessages\<close>
  and a call of an exported method have a bounded number of waits (a turn of \<open>readPump\<close> has as many
  as there are pongs).  With the goroutines of Redis beside them the bounds, the order of closing and
  of the handshake still hold, each id in the table of the Redis handler has exactly one goroutine
  for its reader, and a reader that was stopped stays so, once its goroutine has passed its start,
  and that goroutine then takes at most eleven steps: the waits left in its turn, at most seven, and
  four to leave its two loops.  Each kind of message has its effect on every path: accepted and
  rejected handshakes, starts, stops, every way a read can end, closing.  The configuration factory overlays the defaults without touching
  them; for every configured wait
  between two nanoseconds and about thirty years the ping comes before the pong is due.
  The outgoing queue and the socket implement an outbox: what is sent is given to the socket once,
  in the order of sending, and nothing is sent after the close; what the socket was given is what
  was taken from the queue; from every state in which the processing goroutine is at its loop
  all queued messages can be written.  The table of subscriptions is what the messages taken so
  far make of it.  Both hold with the goroutines of Redis, too, and a message that Redis
  sends to a listening reader can be written to the peer.  Messages survive writing and reading,
  up to what is not valid UTF-8 in their texts.  Topics are collected once.  Requests become connections exactly by the negotiated protocol.
  Readers are started, fed, and closed with their subscription; refused
  subscriptions are counted, and the fourth in a row closes the connection.  The chat server turns a
  request into a connection whose first handshake is welcomed or turned away; in the chat, what a
  user sends is what the others get, and the table of users is sound in every history.

  Where the code does not do what it means to, the theorem states what it does: lost start
  errors, \<open>RemoveHandler\<close>, a second close, a processing goroutine that blocks on its own queues,
  once for ever with a lock in its hand, a \<open>null\<close> written to the peer after a close, handshakes
  that no handler sees, a peer that can end the program with one frame, a \<open>stop\<close> that can end it
  too, names in the chat that are lost.

  \<^bold>\<open>Outside the model.\<close>  Other packages are arguments: the fields of \<open>env\<close>, \<open>http_lib\<close>, \<open>redis_lib\<close>,
  \<open>redis_pool\<close>, \<open>redigo\<close> and the methods of handlers are arbitrary functions on an outside state.  A
  handler's method is one step of its goroutine, and accesses to the chat's map of users are
  atomic.  Data races on fields read without a lock are seen only at the points where a routine
  waits.  Taking a message from the outgoing queue and writing it is one step, and so is the
  closing of a reader with its connection to Redis: what others could do between their parts is not
  seen.  A goroutine of the Redis handler starts for each entry of \<open>rw_pumps\<close>, where the handler
  records its \<open>go\<close> statements.  The frames of the peer are those the read limit lets through.  Texts of
  \<open>encoding/json\<close> are bytes, in which it replaces what is not valid UTF-8; GraphQL texts and the names
  in the chat are valid.  A reader of a \<open>RWMutex\<close> may pass a waiting writer, so the model has more interleavings
  than the library.  Bytes of JSON are given by the value they spell.  Logging is left out (with
  \<open>variables.go\<close>, its levels), but for the dereference of a read message, which can panic.
  The ticker may fire at any time; timing is not modelled.  Of the functions \<open>main\<close> under
  \<open>examples/\<close>, the HTTP server with its dispatch, signals and the goroutines that print are left out.
  The document AST is what \<open>ast.go\<close> looks at.  Every recursion is structural or over finite input,
  so no fuel is needed; loops that may not end are given by their bodies, and the step relations
  repeat them.
\<close>

section \<open>A connection fed from Redis\<close>

text \<open>The only handler of the connection is a \<open>redisSubscriptionHandler\<close>.\<close>

definition fed_by_redis :: "'n redis_world env \<Rightarrow> 'n redis_lib \<Rightarrow> 'n redis_world conn \<Rightarrow> bool" where
  "fed_by_redis E L c \<longleftrightarrow> (\<exists>h. c_Handlers c = [HObj h] \<and> impls E h = redis_methods L)"

lemma redis_methods_simps [simp]:
  "HandleConnectionStart (redis_methods L) = None" "HandleConnectionStop (redis_methods L) = None"
  "HandleSubscriptionStart (redis_methods L) = Some (redis_HandleSubscriptionStart L)"
  "HandleSubscriptionStop (redis_methods L) = Some (redis_HandleSubscriptionStop L)"
  "HandleWebsocketClose (redis_methods L) = Some (redis_HandleWebsocketClose L)"
  by (simp_all add: redis_methods_def)

text \<open>A connection with one reader, for examples.\<close>

definition fed_conn :: "string list redis_world conn" where
  "fed_conn = (redis_conn subscribed)\<lparr>c_Handlers := [HObj 0],
     c_Subscriptions := [''1'' \<mapsto> redis_sub [''news'']]\<rparr>"

lemma fed_conn_facts:
  "fed_by_redis fed_env own_topics fed_conn" "open_conn fed_conn" "idle fed_conn"
  "c_state fed_conn = connStateEstablished" "readers_ok (c_world fed_conn)"
  "load_reader (c_world fed_conn) ''1'' = Some 0"
  by (simp_all add: fed_by_redis_def fed_env_def fed_conn_def redis_conn_def NewConn_def open_conn_def
      idle_def make_chan_def readers_ok_def load_reader_def change_reader_def one_reader_eq)

lemma own_topics_subscribe: "subscribes_to (\<lambda>f. Some (topic_field [StringTopic f])) x n f [StringTopic f]"
  by (simp add: subscribes_to_def topic_field_def)

text \<open>
  C13: on an established connection, a \<open>start\<close> message that is accepted, and whose fields have
  subscribe functions that succeed, registers the subscription under the id of the message,
  puts a new reader under the same id into the handler's table and starts one goroutine for
  it, which listens to the topics of all fields, each once however many fields share it.
\<close>

theorem start_message_starts_a_reader:
  assumes "idle c" and "c_state c = connStateEstablished" and "fed_by_redis E L c"
    and "msg_Type m = ''start''" and "decode_GQLObject (msg_Payload m) = Inr payload"
    and "accepted_subscription E \<lparr>start_ID = msg_ID m, start_Payload = payload\<rparr> c = Some s"
    and "schema_fields L (sub_Schema s) = Returns fm"
    and "\<And>f. f \<in> set (sub_Fields s) \<Longrightarrow> subscribes_to fm s (rw_net (c_world c)) f (ts f)"
  shows "\<exists>c' p. run (processIncomeMessage E (Msg m) c) = Done () c' \<and>
    map_load (c_Subscriptions c') (msg_ID m) = Some s \<and>
    load_reader (c_world c') (msg_ID m) = Some (length (rw_readers (c_world c))) \<and>
    rw_readers (c_world c') = rw_readers (c_world c) @ [newSubscriptionRedisReader s] \<and>
    rw_pumps (c_world c') = rw_pumps (c_world c) @ [(length (rw_readers (c_world c)), p)] \<and>
    set (Topics p) = (\<Union>f \<in> set (sub_Fields s). set (ts f)) \<and> distinct (Topics p)"
proof -
  obtain h where h: "c_Handlers c = [HObj h]" "impls E h = redis_methods L"
    using assms(3) by (auto simp: fed_by_redis_def)
  obtain p w' where start: "redis_HandleSubscriptionStart L s (c_world c) = (Returns None, w')"
    and w': "\<forall>k. load_reader w' k =
        (if k = sub_ID s then Some (length (rw_readers (c_world c))) else load_reader (c_world c) k)"
      "rw_readers w' = rw_readers (c_world c) @ [newSubscriptionRedisReader s]"
      "rw_pumps w' = rw_pumps (c_world c) @ [(length (rw_readers (c_world c)), p)]"
      "set (Topics p) = (\<Union>f \<in> set (sub_Fields s). set (ts f))" "distinct (Topics p)"
    using redis_start_run [OF assms(7,8)] by blast
  let ?s = "\<lparr>start_ID = msg_ID m, start_Payload = payload\<rparr>"
  have calls: "start_calls E ?s c = (None, c_world c)"
    using h by (simp add: start_calls_def handler_call_def)
  have ann: "announced E s c (c_world c) = (Inr Completed, w')"
    using h start by (simp add: announced_def handler_call_def)
  have id: "sub_ID s = msg_ID m"
    using assms(6) by (auto simp: accepted_subscription_def split: if_splits sum.splits)
  have "run (processIncomeMessage E (Msg m) c) = Done () ((addSubscription s c)\<lparr>c_world := w'\<rparr>)"
    using assms(1,2,4,5,6) calls ann
    by (simp add: processIncomeMessage_cases process_start_def run_simps idle_def run_gqlStart)
  then show ?thesis
    using w' id by (simp add: addSubscription_def map_load_def map_store_def)
qed

theorem start_message_starts_a_reader_witness:
  "\<exists>c'. run (processIncomeMessage fed_env (Msg start_msg) fed_conn) = Done () c' \<and>
     load_reader (c_world c') ''7'' = Some 1"
proof -
  let ?start = "\<lparr>start_ID = msg_ID start_msg,
      start_Payload = \<lparr>obj_Query = ''q'', obj_Variables = None, obj_OperationName = ''''\<rparr>\<rparr>"
  obtain s where s: "accepted_subscription fed_env ?start fed_conn = Some s"
    by (simp add: accepted_subscription_def start_msg_def fed_env_def redis_env_def)
  have fm: "schema_fields own_topics (sub_Schema s) = Returns (\<lambda>f. Some (topic_field [StringTopic f]))"
    by (simp add: own_topics_def)
  have ty: "msg_Type start_msg = ''start''" and len: "length (rw_readers (c_world fed_conn)) = 1"
    and id: "msg_ID start_msg = ''7''"
    by (simp_all add: start_msg_def fed_conn_def redis_conn_def NewConn_def change_reader_def one_reader_eq)
  show ?thesis
    using start_message_starts_a_reader [OF fed_conn_facts(3,4,1) ty decode_start_msg s fm
        own_topics_subscribe]
    unfolding len id by blast
qed

text \<open>
  C19: a \<open>stop\<close> message for a subscription of the connection closes the reader the handler has
  for it, and no other; the connection keeps the subscription.
\<close>

theorem stop_message_closes_the_reader:
  assumes "fed_by_redis E L c" and "msg_Type m = ''stop''"
    and "msg_Payload m = Some j" and "decode_GQLStop (msg_Payload m) = Inr stop"
    and "c_Subscriptions c (stop_ID stop) = Some s" and "sub_ID s = stop_ID stop"
    and "readers_ok (c_world c)" and "load_reader (c_world c) (stop_ID stop) = Some i"
  shows "\<exists>w'. run (processIncomeMessage E (Msg m) c) = Done () (c\<lparr>c_world := w'\<rparr>) \<and>
    r_state (reader_at i w') = readerStateClosed \<and>
    (\<forall>k. k \<noteq> i \<longrightarrow> reader_at k w' = reader_at k (c_world c))"
proof -
  obtain h where h: "c_Handlers c = [HObj h]" "impls E h = redis_methods L"
    using assms(1) by (auto simp: fed_by_redis_def)
  have i: "i < length (rw_readers (c_world c))"
    using assms(7,8) by (auto simp: load_reader_def readers_ok_def dest!: map_of_SomeD)
  have "run (processIncomeMessage E (Msg m) c) =
      Done () (c\<lparr>c_world := reader_close L i (c_world c)\<rparr>)"
    using h assms(2-6,8)
    by (simp add: processIncomeMessage_cases process_stop_def run_gqlStop stop_calls_def
        handler_call_def redis_HandleSubscriptionStop_def)
  then show ?thesis
    using i by (auto simp: reader_close_state reader_close_other)
qed

theorem stop_message_closes_the_reader_witness:
  "\<exists>c'. run (processIncomeMessage fed_env (Msg \<lparr>msg_ID = ''1'', msg_Type = ''stop'',
       msg_Payload = Some (JObj [(''id'', JStr ''1'')])\<rparr>) fed_conn) = Done () c' \<and>
     r_state (reader_at 0 (c_world c')) = readerStateClosed"
proof -
  let ?m = "\<lparr>msg_ID = ''1'', msg_Type = ''stop'', msg_Payload = Some (JObj [(''id'', JStr ''1'')])\<rparr>"
  have d: "decode_GQLStop (msg_Payload ?m) = Inr \<lparr>stop_ID = ''1''\<rparr>"
    by (simp add: decode_GQLStop_def decode_payload_def decode_struct_def GQLStop_field_def zero_GQLStop_def)
  have s: "c_Subscriptions fed_conn (stop_ID \<lparr>stop_ID = ''1''\<rparr>) = Some (redis_sub [''news''])"
    "sub_ID (redis_sub [''news'']) = stop_ID \<lparr>stop_ID = ''1''\<rparr>"
    by (simp_all add: fed_conn_def redis_sub_def)
  have l: "load_reader (c_world fed_conn) (stop_ID \<lparr>stop_ID = ''1''\<rparr>) = Some 0"
    by (simp add: fed_conn_facts)
  show ?thesis
    using stop_message_closes_the_reader [OF fed_conn_facts(1) _ _ d s fed_conn_facts(5) l] by fastforce
qed

text \<open>
  C18: closing an open connection closes every reader in the handler's table, provided the
  library's close of the websocket leaves the readers alone.
\<close>

theorem closing_the_connection_closes_every_reader:
  assumes "open_conn c" and "fed_by_redis E L c" and "readers_ok (c_world c)"
    and "\<And>w. rw_readers (snd (ws_Close E w)) = rw_readers w"
    and "load_reader (c_world c) k = Some i"
  shows "\<exists>err c'. run (close E c) = Done err c' \<and> c_state c' = connStateClosed \<and>
    r_state (reader_at i (c_world c')) = readerStateClosed"
proof -
  obtain h where h: "c_Handlers c = [HObj h]" "impls E h = redis_methods L"
    using assms(2) by (auto simp: fed_by_redis_def)
  let ?w = "snd (redis_HandleWebsocketClose L (0, '''') (c_world c))"
  have "closed_by E c = (Inr Completed, ?w)"
    using h by (simp add: closed_by_def handler_call_def redis_HandleWebsocketClose_def)
  then have r: "run (close E c) =
      Done (fst (ws_Close E ?w)) (closed_conn (snd (ws_Close E ?w)) c)"
    using run_close_open [OF assms(1), of E] by (simp add: split_beta)
  have "r_state (reader_at i (snd (ws_Close E ?w))) = r_state (reader_at i ?w)"
    by (simp add: reader_at_def assms(4))
  then have "r_state (reader_at i (snd (ws_Close E ?w))) = readerStateClosed"
    using websocket_close_state [OF assms(3), of i L "(0, '''')"] assms(5) by auto
  with r show ?thesis by (simp add: closed_conn_def)
qed

theorem closing_the_connection_closes_every_reader_witness:
  "\<exists>err c'. run (close fed_env fed_conn) = Done err c' \<and> c_state c' = connStateClosed \<and>
     r_state (reader_at 0 (c_world c')) = readerStateClosed"
proof -
  have "\<And>w. rw_readers (snd (ws_Close fed_env w)) = rw_readers w"
    by (simp add: fed_env_def redis_env_def)
  from closing_the_connection_closes_every_reader [OF fed_conn_facts(2,1,5) this fed_conn_facts(6)]
  show ?thesis .
qed

end
